theory Spec2Isabelle
  imports Main
begin

section \<open>Text model\<close>

text \<open>
  A Python \<open>str\<close> is modelled as a list of code points, one \<^typ>\<open>char\<close> per code
  point; \<open>len\<close> is \<^const>\<open>length\<close>. The characters of the model are the code
  points below 256 (Latin-1), which hold the Spanish text the pipeline is written for;
  the character classes of Python's \<open>re\<close> and \<open>str\<close> methods are given on that range.
\<close>

abbreviation CR :: char where "CR \<equiv> CHR 0x0D"
abbreviation TAB :: char where "TAB \<equiv> CHR 0x09"
abbreviation NL :: char where "NL \<equiv> CHR 0x0A"
abbreviation SP :: char where "SP \<equiv> CHR 0x20"

section \<open>Normalizer (\<open>pre_filtro\<close>, \<open>generar_candidatos_contratista\<close>)\<close>

text \<open>\<open>s.replace(old, new)\<close> for a single character \<open>old\<close>.\<close>

definition replace_char :: "char \<Rightarrow> string \<Rightarrow> string \<Rightarrow> string" where
  "replace_char old new s = concat (map (\<lambda>c. if c = old then new else [c]) s)"

text \<open>\<open>re.sub(r"[ \t]+", " ", s)\<close>: every maximal run of spaces and tabs becomes one space.\<close>

definition is_blank :: "char \<Rightarrow> bool" where
  "is_blank c = (c = SP \<or> c = TAB)"

function sub_blanks :: "string \<Rightarrow> string" where
  "sub_blanks [] = []"
| "sub_blanks (c # cs) =
     (if is_blank c then SP # sub_blanks (dropWhile is_blank cs) else c # sub_blanks cs)"
  by pat_completeness auto
termination
  by (relation "measure length") (auto simp: less_Suc_eq_le length_dropWhile_le)

text \<open>
  \<open>re.sub(r"\n{3,}", "\n\n", s)\<close>: the match at a position is the whole run of newlines
  starting there when that run has three or more; it becomes two newlines.
\<close>

definition is_nl :: "char \<Rightarrow> bool" where
  "is_nl c = (c = NL)"

function sub_newlines :: "string \<Rightarrow> string" where
  "sub_newlines [] = []"
| "sub_newlines (c # cs) =
     (if is_nl c \<and> 2 \<le> length (takeWhile is_nl cs)
      then NL # NL # sub_newlines (dropWhile is_nl cs)
      else c # sub_newlines cs)"
  by pat_completeness auto
termination
  by (relation "measure length") (auto simp: less_Suc_eq_le length_dropWhile_le)

text \<open>
  The three normalising statements at the head of \<open>pre_filtro\<close> (and of
  \<open>generar_candidatos_contratista\<close>):
  \<^verbatim>\<open>
  texto_norm = texto.replace("\r", "").replace("\t", " ")
  texto_norm = re.sub(r"[ \t]+", " ", texto_norm)
  texto_norm = re.sub(r"\n{3,}", "\n\n", texto_norm)
  \<close>
\<close>

definition normalizar :: "string \<Rightarrow> string" where
  "normalizar texto =
     sub_newlines (sub_blanks (replace_char TAB [SP] (replace_char CR [] texto)))"

text \<open>Shape of a normalised text.\<close>

fun no_sp2 :: "string \<Rightarrow> bool" where
  "no_sp2 (a # b # cs) = (\<not> (a = SP \<and> b = SP) \<and> no_sp2 (b # cs))"
| "no_sp2 _ = True"

fun no_nl3 :: "string \<Rightarrow> bool" where
  "no_nl3 (a # b # c # cs) = (\<not> (a = NL \<and> b = NL \<and> c = NL) \<and> no_nl3 (b # c # cs))"
| "no_nl3 _ = True"


text \<open>
  The normalizer as the specification words it. Tabs and carriage returns become single
  spaces; a run of horizontal whitespace becomes one space, that is, a space that
  follows a space is dropped; more than two blank lines in a row become exactly two,
  that is, a newline that follows three newlines is dropped (three newlines in a row
  are two blank lines). Each character is paired with the characters before it.
\<close>

definition con_previo :: "string \<Rightarrow> (char option \<times> char) list" where
  "con_previo s = zip (None # map Some s) s"

definition con_previos2 :: "string \<Rightarrow> ((char option \<times> char option) \<times> char) list" where
  "con_previos2 s = zip (zip (None # None # map Some s) (None # map Some s)) s"

definition con_previos3 ::
  "string \<Rightarrow> (((char option \<times> char option) \<times> char option) \<times> char) list" where
  "con_previos3 s =
     zip (zip (zip (None # None # None # map Some s) (None # None # map Some s))
            (None # map Some s)) s"

definition espacio_repetido :: "char option \<times> char \<Rightarrow> bool" where
  "espacio_repetido x = (fst x = Some SP \<and> snd x = SP)"

definition quitar_espacio_repetido :: "string \<Rightarrow> string" where
  "quitar_espacio_repetido s = map snd (filter (\<lambda>x. \<not> espacio_repetido x) (con_previo s))"

definition salto_cuarto :: "((char option \<times> char option) \<times> char option) \<times> char \<Rightarrow> bool" where
  "salto_cuarto x =
     (fst (fst (fst x)) = Some NL \<and> snd (fst (fst x)) = Some NL \<and> snd (fst x) = Some NL \<and> snd x = NL)"

definition quitar_salto_cuarto :: "string \<Rightarrow> string" where
  "quitar_salto_cuarto s = map snd (filter (\<lambda>x. \<not> salto_cuarto x) (con_previos3 s))"

definition normalizar_spec :: "string \<Rightarrow> string" where
  "normalizar_spec texto =
     quitar_salto_cuarto
       (quitar_espacio_repetido (map (\<lambda>c. if c = TAB \<or> c = CR then SP else c) texto))"

text \<open>
  The rule of the code, in the same words: carriage returns are deleted, tabs become
  spaces, a space that follows a space is dropped, and a newline that follows two
  newlines is dropped, so that three or more newlines in a row become exactly two.
\<close>

definition salto_tercero :: "(char option \<times> char option) \<times> char \<Rightarrow> bool" where
  "salto_tercero x = (fst (fst x) = Some NL \<and> snd (fst x) = Some NL \<and> snd x = NL)"

definition quitar_salto_tercero :: "string \<Rightarrow> string" where
  "quitar_salto_tercero s = map snd (filter (\<lambda>x. \<not> salto_tercero x) (con_previos2 s))"

definition normalizar_regla :: "string \<Rightarrow> string" where
  "normalizar_regla texto =
     quitar_salto_tercero
       (quitar_espacio_repetido
          (map (\<lambda>c. if c = TAB then SP else c) (filter (\<lambda>c. c \<noteq> CR) texto)))"

text \<open>The whitespace characters the normalizer touches.\<close>

definition norm_space :: "char \<Rightarrow> bool" where
  "norm_space c = (c = CR \<or> c = TAB \<or> c = SP \<or> c = NL)"

section \<open>Merging extraction results (\<open>fusionar_resultados\<close>)\<close>

text \<open>
  An extraction result is a \<open>Dict[str, Optional[str]]\<close>: a key may be missing, or
  present with the value \<open>None\<close>. \<open>d.get(k)\<close> gives \<open>None\<close> in both cases.
\<close>

type_synonym resultado = "string \<rightharpoonup> string option"

definition dict_get :: "resultado \<Rightarrow> string \<Rightarrow> string option" where
  "dict_get d k = (case d k of None \<Rightarrow> None | Some v \<Rightarrow> v)"

text \<open>Python truth of an \<open>Optional[str]\<close>: neither \<open>None\<close> nor the empty string.\<close>

definition truthy :: "string option \<Rightarrow> bool" where
  "truthy v = (case v of None \<Rightarrow> False | Some s \<Rightarrow> s \<noteq> [])"

text \<open>\<open>v in ["null", "none", ""]\<close>\<close>

definition in_nulos :: "string option \<Rightarrow> bool" where
  "in_nulos v = (case v of None \<Rightarrow> False | Some s \<Rightarrow> s \<in> set [''null'', ''none'', ''''])"

text \<open>A value that counts as data: \<open>v and v not in ["null", "none", ""]\<close>.\<close>

definition con_valor :: "string option \<Rightarrow> bool" where
  "con_valor v = (truthy v \<and> \<not> in_nulos v)"

definition campos :: "string list" where
  "campos = [''razon_social'', ''representante'', ''ruc'', ''telefono'', ''mail'', ''domicilio'']"

text \<open>
  The body of the loop over the six fields: the field of \<open>resultado\<close> is assigned only
  in the first branch; the \<open>elif\<close> branch does nothing.
\<close>

definition fusionar_campo :: "resultado \<Rightarrow> resultado \<Rightarrow> string \<Rightarrow> resultado" where
  "fusionar_campo nuevo resultado campo =
     (let valor_base = dict_get resultado campo;
          valor_nuevo = dict_get nuevo campo
      in if (\<not> truthy valor_base \<or> in_nulos valor_base) \<and> truthy valor_nuevo \<and> \<not> in_nulos valor_nuevo
         then resultado(campo \<mapsto> valor_nuevo)
         else resultado)"

definition fusionar_resultados :: "resultado \<Rightarrow> resultado \<Rightarrow> resultado" where
  "fusionar_resultados base nuevo = foldl (fusionar_campo nuevo) base campos"

text \<open>
  The per-chunk loop of \<open>llm\<close>: the accumulator starts with the six fields at \<open>None\<close> and
  takes the partial result of each chunk in turn, left to right.
\<close>

definition resultado_inicial :: resultado where
  "resultado_inicial = map_of (map (\<lambda>c. (c, None)) campos)"

definition fusionar_chunks :: "resultado \<Rightarrow> resultado list \<Rightarrow> resultado" where
  "fusionar_chunks acc parciales = foldl fusionar_resultados acc parciales"

section \<open>Tax-ID validation (\<open>llm\<close>)\<close>

definition is_digit :: "char \<Rightarrow> bool" where
  "is_digit c = (c \<in> set ''0123456789'')"

text \<open>\<open>only_digits(value) = re.sub(r"\D+", "", value or "")\<close>\<close>

definition only_digits :: "string option \<Rightarrow> string" where
  "only_digits v = filter is_digit (case v of None \<Rightarrow> [] | Some s \<Rightarrow> s)"

text \<open>
  \<open>str.lower()\<close> on the code points below 256: the capital letters are A to Z and
  0xC0 to 0xDE without the multiplication sign 0xD7; each has its small letter 32 above.
\<close>

definition lower_char :: "char \<Rightarrow> char" where
  "lower_char c =
     (let n = (of_char c :: nat)
      in if (65 \<le> n \<and> n \<le> 90) \<or> (192 \<le> n \<and> n \<le> 222 \<and> n \<noteq> 215)
         then char_of (n + 32) else c)"

definition lower :: "string \<Rightarrow> string" where
  "lower s = map lower_char s"

text \<open>
  \<open>re.match(r'^d{10,13}$', s)\<close> for a digit \<open>d\<close>: ten to thirteen copies of \<open>d\<close>, up to
  the end of the string or to a newline that ends it.
\<close>

definition match_repetido :: "char \<Rightarrow> string \<Rightarrow> bool" where
  "match_repetido d s =
     (let t = (if s \<noteq> [] \<and> last s = NL then butlast s else s)
      in 10 \<le> length t \<and> length t \<le> 13 \<and> list_all (\<lambda>c. c = d) t)"

text \<open>
  The \<open>ruc\<close> block of the validation stage: from \<open>datos.get("ruc")\<close> to
  \<open>resultado["ruc"]\<close>, which starts as \<open>None\<close>.
\<close>

definition validar_ruc :: "string option \<Rightarrow> string option" where
  "validar_ruc ruc =
     (if truthy ruc \<and> lower (the ruc) \<notin> set [''null'', ''none'', '''']
      then (let ruc_digits = only_digits ruc
            in if 10 \<le> length ruc_digits \<and> length ruc_digits \<le> 13
               then (if match_repetido (CHR ''0'') ruc_digits \<or> match_repetido (CHR ''1'') ruc_digits
                        \<or> match_repetido (CHR ''9'') ruc_digits
                     then None else Some ruc_digits)
               else None)
      else None)"

section \<open>String operations of Python\<close>

text \<open>
  Whitespace of \<open>str.strip\<close>, \<open>str.split\<close> and the pattern \<open>\s\<close> (they agree): below 256
  these are 0x09 to 0x0D, 0x1C to 0x20, 0x85 and 0xA0.
\<close>

definition is_space :: "char \<Rightarrow> bool" where
  "is_space c =
     (let n = (of_char c :: nat)
      in (9 \<le> n \<and> n \<le> 13) \<or> (28 \<le> n \<and> n \<le> 32) \<or> n = 133 \<or> n = 160)"

definition lstrip :: "string \<Rightarrow> string" where
  "lstrip s = dropWhile is_space s"

definition rstrip :: "string \<Rightarrow> string" where
  "rstrip s = rev (dropWhile is_space (rev s))"

definition strip :: "string \<Rightarrow> string" where
  "strip s = rstrip (lstrip s)"

text \<open>\<open>needle\<close> read at the head of the text, and \<open>needle in text\<close>.\<close>

fun es_prefijo :: "string \<Rightarrow> string \<Rightarrow> bool" where
  "es_prefijo [] s = True"
| "es_prefijo (p # ps) [] = False"
| "es_prefijo (p # ps) (c # cs) = (p = c \<and> es_prefijo ps cs)"

fun contiene :: "string \<Rightarrow> string \<Rightarrow> bool" where
  "contiene needle [] = (needle = [])"
| "contiene needle (c # cs) = (es_prefijo needle (c # cs) \<or> contiene needle cs)"

text \<open>
  A literal pattern under \<open>re.IGNORECASE\<close>: a character of the text matches a character
  of the pattern when their lower-case forms are equal. \<open>re.match\<close> reads the literal at
  the head of the text, \<open>re.search\<close> anywhere in it.
\<close>

definition match_ci :: "string \<Rightarrow> string \<Rightarrow> bool" where
  "match_ci lit s = es_prefijo (lower lit) (lower s)"

definition search_ci :: "string \<Rightarrow> string \<Rightarrow> bool" where
  "search_ci lit s = contiene (lower lit) (lower s)"

text \<open>\<open>str.split()\<close>: the maximal runs of characters that are not whitespace.\<close>

function split_ws :: "string \<Rightarrow> string list" where
  "split_ws s =
     (let t = dropWhile is_space s
      in if t = [] then []
         else takeWhile (\<lambda>c. \<not> is_space c) t # split_ws (dropWhile (\<lambda>c. \<not> is_space c) t))"
  by pat_completeness auto
termination
proof (relation "measure length")
  fix s t :: string
  assume t: "t = dropWhile is_space s" and ne: "t \<noteq> []"
  then have "\<not> is_space (hd t)" using hd_dropWhile [of is_space s] by simp
  with ne have "length (dropWhile (\<lambda>c. \<not> is_space c) t) < length t"
    by (cases t) (auto simp: less_Suc_eq_le length_dropWhile_le)
  also have "length t \<le> length s" using t by (simp add: length_dropWhile_le)
  finally show "(dropWhile (\<lambda>c. \<not> is_space c) t, s) \<in> measure length" by simp
qed simp

declare split_ws.simps [simp del]

section \<open>Persistence (\<open>update_postgres\<close>)\<close>

text \<open>
  The table \<open>CONTRATOS_TABLE\<close>: its columns as \<open>information_schema\<close> lists them, its rows
  keyed by \<open>codigo_proceso\<close>, and the write statements executed on it, latest first.
  A row maps a column to its stored value.
\<close>

datatype sqlval = SNull | SText string | SNow | SJson "string list"

datatype expr =
    Param string    \<comment> \<open>\<open>column = %s\<close> with a string parameter\<close>
  | NowE            \<comment> \<open>\<open>column = NOW()\<close>\<close>
  | MergeJson string  \<comment> \<open>\<open>metadata = COALESCE(metadata, '{}'::jsonb) || %s::jsonb\<close>\<close>

type_synonym fila = "string \<rightharpoonup> sqlval"

record sentencia =
  s_set :: "(string \<times> expr) list"
  s_where :: string

record base =
  columnas :: "string list"
  filas :: "string \<rightharpoonup> fila"
  ejecutadas :: "sentencia list"

record file_data =
  codigo_proceso :: "string option"
  file_name :: "string option"
  contratista_data :: "resultado option"

record salida =
  datos :: file_data
  update_status :: string
  update_reason :: "string option"

datatype error = ValueError | ConnectionError | OtherError | RuntimeError

text \<open>
  The connection loop: three attempts; a connection error is retried until the last
  attempt, any other error is raised at once. \<open>get_conn i\<close> is what the attempt number
  \<open>i\<close> meets.
\<close>

datatype intento = Conectado | FalloConexion | FalloOtro

definition max_conn_retries :: nat where
  "max_conn_retries = 3"

fun conectar :: "(nat \<Rightarrow> intento) \<Rightarrow> nat \<Rightarrow> nat \<Rightarrow> error + unit" where
  "conectar get_conn i 0 = Inl RuntimeError"
| "conectar get_conn i (Suc n) =
     (case get_conn i of
        Conectado \<Rightarrow> Inr ()
      | FalloConexion \<Rightarrow>
          if i < max_conn_retries - 1 then conectar get_conn (Suc i) n else Inl ConnectionError
      | FalloOtro \<Rightarrow> Inl OtherError)"

text \<open>
  The cleaning of \<open>razon_social\<close> and \<open>representante\<close> before the statement is built; it
  assigns into \<open>datos_contratista\<close>. The two cleaners \<open>limpiar_razon_social\<close> and
  \<open>limpiar_nombre_persona\<close> are parameters here: what follows holds for whatever they
  return.
\<close>

definition prefijos_invalidos :: "string list" where
  "prefijos_invalidos =
     [''Comparecen'', ''Partes'', ''quienes'', ''ser'' @ [CHR 0xE1], ''Av.'', ''Calle'', ''Sector'']"

definition limpiar_razon_bd :: "(string \<Rightarrow> string option) \<Rightarrow> resultado \<Rightarrow> resultado" where
  "limpiar_razon_bd limpiar_razon_social d =
     (let razon_raw = dict_get d ''razon_social''
      in if truthy razon_raw
         then (let razon_limpia = limpiar_razon_social (the razon_raw)
               in if truthy razon_limpia \<and> 3 \<le> length (the razon_limpia)
                  then (if \<not> list_ex (\<lambda>p. match_ci p (the razon_limpia)) prefijos_invalidos
                        then d(''razon_social'' \<mapsto> razon_limpia)
                        else d(''razon_social'' \<mapsto> None))
                  else d(''razon_social'' \<mapsto> None))
         else d(''razon_social'' \<mapsto> None))"

definition cargos_bd :: "string list" where
  "cargos_bd =
     [''Coordinador'', ''Director'', ''Administrador'', ''Gerente'', ''Jefe'', ''Secretario'',
      ''Ministro'', ''Alcalde'', ''Prefecto'', ''Gobernador'']"

definition empresa_bd :: "string list" where
  "empresa_bd =
     [''LTDA'', ''S.A.'', ''CONSORCIO'', ''CIA'', ''EP'',
      ''COMPA'' @ [CHR 0xD1, CHR 0xCD] @ ''A'', ''COMPA'' @ [CHR 0xD1] @ ''IA'']"

text \<open>
  The basic format of a cleaned representative: two to four words, no digit, no office
  title, no company keyword.
\<close>

definition formato_basico :: "string \<Rightarrow> bool" where
  "formato_basico r =
     (let palabras = split_ws r;
          tiene_numeros = list_ex is_digit r;
          tiene_cargos = list_ex (\<lambda>p. search_ci p r) cargos_bd;
          tiene_empresa = list_ex (\<lambda>p. search_ci p r) empresa_bd
      in 2 \<le> length palabras \<and> length palabras \<le> 4 \<and> \<not> tiene_numeros
         \<and> \<not> tiene_cargos \<and> \<not> tiene_empresa)"

definition limpiar_representante_bd :: "(string \<Rightarrow> string option) \<Rightarrow> resultado \<Rightarrow> resultado" where
  "limpiar_representante_bd limpiar_nombre_persona d =
     (let representante_raw = dict_get d ''representante''
      in if truthy representante_raw
         then (let representante_limpio = limpiar_nombre_persona (the representante_raw)
               in if truthy representante_limpio
                  then (if formato_basico (the representante_limpio)
                        then d(''representante'' \<mapsto> representante_limpio)
                        else d(''representante'' \<mapsto> None))
                  else d(''representante'' \<mapsto> None))
         else d(''representante'' \<mapsto> None))"

text \<open>
  \<open>add_update(column, value)\<close> with no template: the clause is added when the column
  exists and the value is neither \<open>None\<close> nor blank.
\<close>

definition con_texto :: "string option \<Rightarrow> bool" where
  "con_texto v = (case v of None \<Rightarrow> False | Some s \<Rightarrow> strip s \<noteq> [])"

definition add_update ::
  "string list \<Rightarrow> (string \<times> expr) list \<Rightarrow> string \<Rightarrow> string option \<Rightarrow> (string \<times> expr) list" where
  "add_update available_columns set_clauses column v =
     (if column \<notin> set available_columns then set_clauses
      else if \<not> con_texto v then set_clauses
      else set_clauses @ [(column, Param (the v))])"

text \<open>The loop over \<open>CONTRATISTA_FIELDS\<close>.\<close>

definition add_campo ::
  "string list \<Rightarrow> resultado \<Rightarrow> (string \<times> expr) list \<Rightarrow> string \<Rightarrow> (string \<times> expr) list" where
  "add_campo available_columns d set_clauses campo =
     (let valor = dict_get d campo
      in if campo \<in> set available_columns
         then (if con_texto valor then add_update available_columns set_clauses campo valor
               else set_clauses)
         else set_clauses)"

text \<open>
  The \<open>SET\<close> list of the statement, in the order the code builds it: the date column,
  the six fields, the source file, the metadata; then the last resort when the list is
  still empty.
\<close>

definition set_fecha :: "string list \<Rightarrow> (string \<times> expr) list" where
  "set_fecha available_columns =
     (if ''updated_at'' \<in> set available_columns then [(''updated_at'', NowE)]
      else if ''fecha_actualizacion'' \<in> set available_columns then [(''fecha_actualizacion'', NowE)]
      else [])"

definition set_resto ::
  "string list \<Rightarrow> string option \<Rightarrow> string \<Rightarrow> (string \<times> expr) list \<Rightarrow> (string \<times> expr) list" where
  "set_resto available_columns fname metadata_json set_clauses =
     (let s1 = (if ''fuente_archivo'' \<in> set available_columns
                then add_update available_columns set_clauses ''fuente_archivo'' fname
                else set_clauses)
      in if ''metadata'' \<in> set available_columns then s1 @ [(''metadata'', MergeJson metadata_json)]
         else s1)"

definition set_ultimo_recurso :: "string list \<Rightarrow> (string \<times> expr) list \<Rightarrow> (string \<times> expr) list" where
  "set_ultimo_recurso available_columns set_clauses =
     (if set_clauses = []
      then (let fecha_columns =
                  filter (\<lambda>col. contiene ''fecha'' (lower col) \<or> contiene ''updated'' (lower col)
                                \<or> contiene ''actualizacion'' (lower col)) available_columns
            in (case fecha_columns of [] \<Rightarrow> set_clauses | col # _ \<Rightarrow> [(col, NowE)]))
      else set_clauses)"

definition construir_set ::
  "string list \<Rightarrow> resultado \<Rightarrow> string option \<Rightarrow> string \<Rightarrow> (string \<times> expr) list" where
  "construir_set available_columns d fname metadata_json =
     set_ultimo_recurso available_columns
       (set_resto available_columns fname metadata_json
          (foldl (add_campo available_columns d) (set_fecha available_columns) campos))"

text \<open>
  The \<open>UPDATE\<close> on the table: every row whose \<open>codigo_proceso\<close> is the key takes the
  assignments, each evaluated on the row as it was; the statement is recorded.
\<close>

definition eval_expr :: "fila \<Rightarrow> string \<Rightarrow> expr \<Rightarrow> sqlval" where
  "eval_expr row col e =
     (case e of
        Param v \<Rightarrow> SText v
      | NowE \<Rightarrow> SNow
      | MergeJson j \<Rightarrow> (case row col of Some (SJson js) \<Rightarrow> SJson (js @ [j]) | _ \<Rightarrow> SJson [j]))"

definition aplicar_set :: "(string \<times> expr) list \<Rightarrow> fila \<Rightarrow> fila" where
  "aplicar_set sets row = foldl (\<lambda>r (col, e). r(col \<mapsto> eval_expr row col e)) row sets"

definition ejecutar_update :: "(string \<times> expr) list \<Rightarrow> string \<Rightarrow> base \<Rightarrow> base \<times> nat" where
  "ejecutar_update sets codigo db =
     (let st = \<lparr>s_set = sets, s_where = codigo\<rparr>
      in case filas db codigo of
           None \<Rightarrow> (db\<lparr>ejecutadas := st # ejecutadas db\<rparr>, 0)
         | Some row \<Rightarrow>
             (db\<lparr>filas := (filas db)(codigo \<mapsto> aplicar_set sets row),
                 ejecutadas := st # ejecutadas db\<rparr>, 1))"

text \<open>
  \<open>datos_contratista = file_data.get("contratista_data") or {}\<close>, as received and after
  the cleaning of the two name fields.
\<close>

definition datos_contratista :: "file_data \<Rightarrow> resultado" where
  "datos_contratista fd = (case contratista_data fd of None \<Rightarrow> Map.empty | Some d0 \<Rightarrow> d0)"

definition datos_limpios ::
  "(string \<Rightarrow> string option) \<Rightarrow> (string \<Rightarrow> string option) \<Rightarrow> file_data \<Rightarrow> resultado" where
  "datos_limpios limpiar_razon_social limpiar_nombre_persona fd =
     limpiar_representante_bd limpiar_nombre_persona
       (limpiar_razon_bd limpiar_razon_social (datos_contratista fd))"

text \<open>
  \<open>update_postgres(file_data)\<close>. Once the connection is there, the statements sent
  through the cursor succeed. \<open>datos_contratista\<close> is the dictionary of \<open>file_data\<close>
  itself unless that one is missing or empty, so the cleaned values show in the
  returned \<open>file_data\<close>. The time stamp of the returned dictionary is left out.
\<close>

definition update_postgres ::
  "(string \<Rightarrow> string option) \<Rightarrow> (string \<Rightarrow> string option) \<Rightarrow> (nat \<Rightarrow> intento) \<Rightarrow> string \<Rightarrow>
   base \<Rightarrow> file_data \<Rightarrow> base \<times> (error + salida)" where
  "update_postgres limpiar_razon_social limpiar_nombre_persona get_conn metadata_json db fd =
     (if \<not> truthy (codigo_proceso fd) then (db, Inl ValueError)
      else case conectar get_conn 0 max_conn_retries of
        Inl e \<Rightarrow> (db, Inl e)
      | Inr _ \<Rightarrow>
         (let codigo = the (codigo_proceso fd);
              alias = (case contratista_data fd of None \<Rightarrow> False | Some d0 \<Rightarrow> d0 \<noteq> Map.empty);
              available_columns = columnas db
          in if filas db codigo = None
             then (db, Inr \<lparr>datos = fd, update_status = ''skipped'',
                            update_reason = Some ''Registro no existe en BD''\<rparr>)
             else
               (let d = datos_limpios limpiar_razon_social limpiar_nombre_persona fd;
                    fd' = (if alias then fd\<lparr>contratista_data := Some d\<rparr> else fd);
                    set_clauses = construir_set available_columns d (file_name fd) metadata_json
                in if set_clauses = [] then (db, Inl RuntimeError)
                   else (case ejecutar_update set_clauses codigo db of
                           (db', rowcount) \<Rightarrow>
                             if rowcount = 0 \<and> filas db' codigo = None
                             then (db', Inr \<lparr>datos = fd', update_status = ''skipped'',
                                     update_reason =
                                       Some (''Registro no existe despu'' @ [CHR 0xE9] @ ''s del UPDATE'')\<rparr>)
                             else (db', Inr \<lparr>datos = fd', update_status = ''success'',
                                     update_reason = None\<rparr>)))))"

text \<open>The value stored in a column of the row with a given key, if there is one.\<close>

definition celda :: "base \<Rightarrow> string \<Rightarrow> string \<Rightarrow> sqlval option" where
  "celda db codigo col = (case filas db codigo of None \<Rightarrow> None | Some row \<Rightarrow> row col)"

text \<open>A table with one row, and a document whose process code is not in it.\<close>

definition base_ejemplo :: base where
  "base_ejemplo =
     \<lparr>columnas = [''codigo_proceso'', ''ruc'', ''telefono'', ''updated_at''],
      filas = [''PROC-001'' \<mapsto> [''codigo_proceso'' \<mapsto> SText ''PROC-001'',
                                   ''ruc'' \<mapsto> SNull, ''telefono'' \<mapsto> SText ''022345678'']],
      ejecutadas = []\<rparr>"

definition fd_ausente :: file_data where
  "fd_ausente =
     \<lparr>codigo_proceso = Some ''PROC-999'', file_name = Some ''PROC-999.txt'',
      contratista_data = Some [''ruc'' \<mapsto> Some ''1790012345001'']\<rparr>"

definition fd_presente :: file_data where
  "fd_presente =
     \<lparr>codigo_proceso = Some ''PROC-001'', file_name = Some ''PROC-001.txt'',
      contratista_data = Some [''ruc'' \<mapsto> Some ''1790012345001'', ''telefono'' \<mapsto> None]\<rparr>"

section \<open>Phone normalisation (\<open>normalize_phone\<close>)\<close>

text \<open>
  \<open>re.split(r'\s*[/,]\s*', s)\<close>. A match at a position is the run of whitespace there,
  a slash or comma, and the run of whitespace after it; the separators are not
  whitespace, so the greedy runs leave no other way to match.
\<close>

definition is_sep :: "char \<Rightarrow> bool" where
  "is_sep c = (c = CHR ''/'' \<or> c = CHR '','')"

definition match_sep :: "string \<Rightarrow> string option" where
  "match_sep s =
     (case dropWhile is_space s of
        [] \<Rightarrow> None
      | c # cs \<Rightarrow> if is_sep c then Some (dropWhile is_space cs) else None)"

function re_split_aux :: "string \<Rightarrow> string \<Rightarrow> string list" where
  "re_split_aux pieza [] = [pieza]"
| "re_split_aux pieza (c # cs) =
     (case match_sep (c # cs) of
        Some resto \<Rightarrow> pieza # re_split_aux [] resto
      | None \<Rightarrow> re_split_aux (pieza @ [c]) cs)"
  by pat_completeness auto
termination
proof (relation "measure (\<lambda>(p, s). length s)")
  fix pieza :: string and c cs r
  assume a: "match_sep (c # cs) = Some r"
  then obtain d ds where t: "dropWhile is_space (c # cs) = d # ds" and r: "r = dropWhile is_space ds"
    by (auto simp: match_sep_def split: list.splits if_splits)
  have "length r \<le> length ds" using r by (simp add: length_dropWhile_le)
  also have "length ds < length (dropWhile is_space (c # cs))" using t by simp
  also have "\<dots> \<le> length (c # cs)" by (rule length_dropWhile_le)
  finally show "(([], r), (pieza, c # cs)) \<in> measure (\<lambda>(p, s). length s)" by simp
qed simp_all

definition re_split :: "string \<Rightarrow> string list" where
  "re_split s = re_split_aux [] s"

text \<open>
  \<open>re.sub(r"(?:ext\.?|x)\s*\d+$", "", phone, flags=re.IGNORECASE)\<close>. The tail
  \<open>\s*\d+$\<close> reads whitespace and digits up to the end of the string, or up to a newline
  that ends it; \<open>cola_ext\<close> gives what is left after it. A match reaches the end, so
  the first match is the only one.
\<close>

definition cola_ext :: "string \<Rightarrow> string option" where
  "cola_ext s =
     (let t = dropWhile is_space s; r = dropWhile is_digit t
      in if t \<noteq> [] \<and> is_digit (hd t) \<and> (r = [] \<or> r = [NL]) then Some r else None)"

definition match_ext :: "string \<Rightarrow> string option" where
  "match_ext s =
     (case (if match_ci ''ext'' s
            then (case (if es_prefijo ''.'' (drop 3 s) then cola_ext (drop 4 s) else None) of
                    Some r \<Rightarrow> Some r
                  | None \<Rightarrow> cola_ext (drop 3 s))
            else None) of
        Some r \<Rightarrow> Some r
      | None \<Rightarrow> if match_ci ''x'' s then cola_ext (drop 1 s) else None)"

fun quitar_ext :: "string \<Rightarrow> string" where
  "quitar_ext [] = []"
| "quitar_ext (c # cs) =
     (case match_ext (c # cs) of Some r \<Rightarrow> r | None \<Rightarrow> c # quitar_ext cs)"

text \<open>\<open>re.sub(r"^\+593\s*", "0", phone)\<close>\<close>

definition prefijo_593 :: "string \<Rightarrow> string" where
  "prefijo_593 s =
     (if es_prefijo ''+593'' s then CHR ''0'' # dropWhile is_space (drop 4 s) else s)"

text \<open>\<open>re.fullmatch(r"09\d{8}", digits)\<close> and \<open>re.fullmatch(r"0[2-7]\d{7}", digits)\<close>\<close>

definition es_celular :: "string \<Rightarrow> bool" where
  "es_celular d = (length d = 10 \<and> es_prefijo ''09'' d \<and> list_all is_digit d)"

definition es_fijo :: "string \<Rightarrow> bool" where
  "es_fijo d =
     (length d = 9 \<and> es_prefijo ''0'' d \<and> list_ex (\<lambda>c. d ! 1 = c) ''234567'' \<and> list_all is_digit d)"

datatype tipo = Celular | Fijo

text \<open>The digits of one phone: extension removed, country prefix replaced, digits kept.\<close>

definition digitos_telefono :: "string \<Rightarrow> string" where
  "digitos_telefono phone = filter is_digit (prefijo_593 (strip (quitar_ext phone)))"

definition clasificar :: "string \<Rightarrow> (tipo \<times> string) option" where
  "clasificar digits =
     (if es_celular digits then Some (Celular, digits)
      else if es_fijo digits then Some (Fijo, digits)
      else None)"

text \<open>The loop over the pieces: \<open>valid_phones\<close> in the order of the pieces.\<close>

definition valid_phones :: "string \<Rightarrow> (tipo \<times> string) list" where
  "valid_phones s =
     List.map_filter
       (\<lambda>phone. let p = strip phone
                 in if p = [] then None else clasificar (digitos_telefono p))
       (re_split s)"

definition normalize_phone :: "string option \<Rightarrow> string option" where
  "normalize_phone raw =
     (if \<not> truthy raw then None
      else (let s = strip (the raw)
            in if s = [] then None
               else (let vp = valid_phones s
                     in case filter (\<lambda>(t, d). t = Celular) vp of
                          (t, d) # _ \<Rightarrow> Some d
                        | [] \<Rightarrow>
                           (case vp of
                              (t, d) # _ \<Rightarrow> Some d
                            | [] \<Rightarrow>
                               (let digits = digitos_telefono s
                                in if es_celular digits then Some digits
                                   else if es_fijo digits then Some digits
                                   else None)))))"

section \<open>Block isolator (\<open>pre_filtro\<close>)\<close>

text \<open>
  The catalogue \<open>patrones_clave\<close>: for each trigger pattern the number of characters
  taken before and after a match. The patterns themselves are read by \<open>re.finditer\<close>,
  which is a parameter of the model: \<open>finditer i s\<close> is the list of the spans
  (\<open>match.start()\<close>, \<open>match.end()\<close>) of pattern number \<open>i\<close> in \<open>s\<close>, in order. The
  patterns, in the order of the catalogue (\<open>\xNN\<close> is the character with that code):
  \<^item> 0 to 16, windows 500 and 1500: \<open>\bcomparecen\b\<close>, \<open>\bpor\s+otra\s+parte\b\<close>,
    \<open>\bcontratista\b\<close>, \<open>\badjudicatario\b\<close>, \<open>\bproveedor\b\<close>, \<open>\bla\s+empresa\b\<close>,
    \<open>\bla\s+compa[\xf1n][\xedi]a\b\<close>, \<open>\bla\s+sociedad\b\<close>, \<open>\bel\s+proveedor\b\<close>,
    \<open>\ba\s+quien\s+en\s+adelante\s+se\s+denominar[\xe1a]\s+contratista\b\<close>,
    \<open>\bcomparece\b.*\brepresentado\s+por\b\<close>, \<open>\bel\s+oferente\s+ganador\b\<close>,
    \<open>\bla\s+persona\s+natural\b\<close>, \<open>\bsocio\s+adjudicado\b\<close>, \<open>\bconsorcio\b\<close>,
    \<open>\bcooperativa\b\<close>, \<open>\bel\s+contratista\s*[:]\<close>;
  \<^item> 17 and 18, windows 300 and 1000: \<open>\bsr\.\s+[a-z\xe1\xe9\xed\xf3\xfa\xf1]+\<close>,
    \<open>\bsra\.\s+[a-z\xe1\xe9\xed\xf3\xfa\xf1]+\<close>;
  \<^item> 19 to 22, windows 300 and 1200: \<open>\bruc\s*[:#]?\s*\d{10,13}\b\<close>,
    \<open>\br\.u\.c\.\s*[:#]?\s*\d{10,13}\b\<close>, \<open>\bruc\s*n[\xb0\xbao]?\s*[:#]?\s*\d{10,13}\b\<close>,
    \<open>\bcon\s+ruc\s*[:#]?\s*\d{10,13}\b\<close>;
  \<^item> 23 to 32, windows 300 and 1200: \<open>\b(?:con\s+)?domicilio\s+en\b\<close>,
    \<open>\b(?:con\s+)?domicilio\s+fiscal\b\<close>, \<open>\bubicado\s+en\b\<close>,
    \<open>\bdirecci[\xf3o]n\s*[:]\s*\<close>, \<open>\bdirecci[\xf3o]n\s+fiscal\s*[:]\s*\<close>,
    \<open>\bse\s+encuentra\s+en\b\<close>, \<open>\blocalizado\s+en\b\<close>, \<open>\breside\s+en\b\<close>,
    \<open>\bsede\s+en\b\<close>, \<open>\boficina\s+en\b\<close>;
  \<^item> 33 to 42, windows 200 and 800: \<open>\bav\.\s+[a-z0-9]\<close>, \<open>\bavenida\s+[a-z0-9]\<close>,
    \<open>\bcalle\s+[a-z0-9]\<close>, \<open>\bsector\s+[a-z0-9]\<close>, \<open>\bparroquia\s+[a-z0-9]\<close>,
    \<open>\bbarrio\s+[a-z0-9]\<close>, \<open>\bconjunto\s+[a-z0-9]\<close>, \<open>\bentre\s+calles\b\<close>,
    \<open>\bkm\s+\d+\<close>, \<open>\bv[\xedi]a\s+[a-z0-9]\<close>;
  \<^item> 43 to 48, windows 200 and 800:
    \<open>\b(?:correo|mail|e[-]?mail|e\s+mail)\s*(?:electr[\xf3o]nico)?\s*[:]\s*[a-z0-9._%+-]+@\<close>,
    \<open>\b(?:tel[\xe9e]fono|tel\.?|telf\.?)\s*[:]\s*\<close>, \<open>\b(?:tel[\xe9e]fonos?|tels?\.?)\s*[:]\s*\<close>,
    \<open>\b(?:celular|cel\.?|m[\xf3o]vil|m[\xf3o]bil)\s*[:]\s*\<close>, \<open>\bcontacto\s*[:]\s*\<close>,
    \<open>\bcomunicaci[\xf3o]n\s*[:]\s*\<close>;
  \<^item> 49 to 53, windows 400 and 1500: the three clause headers
    \<open>\bcl[\xe1a]usula\s+(?:d[\xe9e]cima\s+)?(?:octava|novena|d[\xe9e]cima)\s*[\.\-]\s*\<close> followed by
    \<open>domicilio\b\<close>, \<open>comunicaciones\b\<close> and \<open>contacto\b\<close>, then
    \<open>\bdatos\s+del\s+contratista\b\<close> and \<open>\binformaci[\xf3o]n\s+del\s+contratista\b\<close>.

  Every pattern reads at least one character, so a match is never empty.
\<close>

definition patrones_clave :: "(nat \<times> nat) list" where
  "patrones_clave =
     replicate 17 (500, 1500) @ replicate 2 (300, 1000) @ replicate 4 (300, 1200) @
     replicate 10 (300, 1200) @ replicate 10 (200, 800) @ replicate 6 (200, 800) @
     replicate 5 (400, 1500)"

text \<open>\<open>s[i:j]\<close> for indices that are not negative.\<close>

definition slice :: "string \<Rightarrow> nat \<Rightarrow> nat \<Rightarrow> string" where
  "slice s i j = take (j - i) (drop i s)"

type_synonym bloque = "nat \<times> nat \<times> string"

text \<open>
  The body of the inner loop for one match, with its window \<open>inicio\<close>, \<open>fin\<close>: the scan of
  \<open>bloques_encontrados\<close> stops at the first block that overlaps the window; that block is
  replaced by the union when the window reaches beyond it (\<open>remove\<close> takes out its first
  occurrence, \<open>append\<close> puts the union at the end). With no overlap the window is appended.
\<close>

fun solapar :: "string \<Rightarrow> nat \<Rightarrow> nat \<Rightarrow> bloque list \<Rightarrow> bloque list \<Rightarrow> bloque list" where
  "solapar t inicio fin todos [] = todos @ [(inicio, fin, slice t inicio fin)]"
| "solapar t inicio fin todos ((inicio_exist, fin_exist, b) # resto) =
     (if \<not> (fin < inicio_exist \<or> inicio > fin_exist)
      then (if inicio < inicio_exist \<or> fin > fin_exist
            then (let nuevo_inicio = min inicio inicio_exist; nuevo_fin = max fin fin_exist
                  in remove1 (inicio_exist, fin_exist, slice t inicio_exist fin_exist) todos
                     @ [(nuevo_inicio, nuevo_fin, slice t nuevo_inicio nuevo_fin)])
            else todos)
      else solapar t inicio fin todos resto)"

text \<open>
  One match: \<open>inicio = max(0, match.start() - contexto_antes)\<close> (the subtraction of
  natural numbers stops at 0) and \<open>fin = min(len(texto_norm), match.end() + contexto_despues)\<close>.
\<close>

definition agregar_match :: "string \<Rightarrow> nat \<Rightarrow> nat \<Rightarrow> bloque list \<Rightarrow> nat \<times> nat \<Rightarrow> bloque list" where
  "agregar_match t antes despues todos m =
     (let inicio = fst m - antes; fin = min (length t) (snd m + despues)
      in solapar t inicio fin todos todos)"

text \<open>
  The two loops. The patterns are searched in \<open>texto_lower = texto_norm.lower()\<close>, but the
  windows are cut from \<open>texto_norm\<close> and bounded by its length. \<open>str.lower\<close> is a parameter
  of the model: on the characters below 256 it is \<open>lower\<close>, one character for one, but
  on the whole of Unicode it can lengthen a text (U+0130 becomes two code points), so
  that a span found in \<open>texto_lower\<close> need not lie inside \<open>texto_norm\<close>.
\<close>

definition buscar_bloques ::
  "(string \<Rightarrow> string) \<Rightarrow> (nat \<Rightarrow> string \<Rightarrow> (nat \<times> nat) list) \<Rightarrow> string \<Rightarrow> bloque list" where
  "buscar_bloques str_lower finditer texto_norm =
     (let texto_lower = str_lower texto_norm
      in foldl (\<lambda>todos (i, antes, despues).
                  foldl (agregar_match texto_norm antes despues) todos (finditer i texto_lower))
           [] (enumerate 0 patrones_clave))"

text \<open>
  The fusion of the sorted blocks: a block that starts less than 500 characters after
  the end of the last fused block is merged into it.
\<close>

fun fusionar_bloques :: "string \<Rightarrow> bloque list \<Rightarrow> bloque list \<Rightarrow> bloque list" where
  "fusionar_bloques t fusionados [] = fusionados"
| "fusionar_bloques t fusionados ((inicio, fin, b) # resto) =
     (if fusionados \<noteq> []
      then (case last fusionados of (ultimo_inicio, ultimo_fin, ultimo_bloque) \<Rightarrow>
              if int inicio - int ultimo_fin < 500
              then (let nuevo_fin = max fin ultimo_fin
                    in fusionar_bloques t
                         (butlast fusionados @ [(ultimo_inicio, nuevo_fin, slice t ultimo_inicio nuevo_fin)])
                         resto)
              else fusionar_bloques t (fusionados @ [(inicio, fin, b)]) resto)
      else fusionar_bloques t (fusionados @ [(inicio, fin, b)]) resto)"

text \<open>\<open>sep.join(xs)\<close>\<close>

fun join :: "string \<Rightarrow> string list \<Rightarrow> string" where
  "join sep [] = []"
| "join sep [x] = x"
| "join sep (x # y # ys) = x @ sep @ join sep (y # ys)"

definition separador :: string where
  "separador = [NL, NL] @ ''---'' @ [NL, NL]"

definition pre_filtro ::
  "(string \<Rightarrow> string) \<Rightarrow> (nat \<Rightarrow> string \<Rightarrow> (nat \<times> nat) list) \<Rightarrow> string \<Rightarrow> string" where
  "pre_filtro str_lower finditer texto =
     (if texto = [] then []
      else (let texto_norm = normalizar texto;
                bloques_encontrados = buscar_bloques str_lower finditer texto_norm
            in if bloques_encontrados = [] then take 8000 texto_norm
               else (let ordenados = sort_key fst bloques_encontrados;
                         bloques_fusionados = fusionar_bloques texto_norm [] ordenados;
                         texto_filtrado = join separador (map (\<lambda>(i, f, b). b) bloques_fusionados)
                     in if length texto_filtrado > 12000 then take 12000 texto_filtrado
                        else texto_filtrado)))"

text \<open>
  What \<open>re.finditer\<close> guarantees on the text \<open>s\<close> it searches: the spans of every pattern
  of the catalogue are not empty and lie inside \<open>s\<close>.
\<close>

definition spans_ok :: "(nat \<Rightarrow> string \<Rightarrow> (nat \<times> nat) list) \<Rightarrow> string \<Rightarrow> bool" where
  "spans_ok finditer s =
     (\<forall>i < length patrones_clave. \<forall>m \<in> set (finditer i s). fst m < snd m \<and> snd m \<le> length s)"

text \<open>A finder that knows one pattern, number 2, and looks for it at the head of the text.\<close>

definition finditer_ejemplo :: "nat \<Rightarrow> string \<Rightarrow> (nat \<times> nat) list" where
  "finditer_ejemplo i s = (if i = 2 \<and> es_prefijo ''contratista'' s then [(0, 11)] else [])"

section \<open>Representative names (\<open>validar_representante\<close>)\<close>

text \<open>
  \<open>re.search\<close> for a pattern given by its matcher at the head of a text: the pattern
  matches somewhere when it matches at the head of one of the suffixes.
\<close>

fun re_search :: "(string \<Rightarrow> bool) \<Rightarrow> string \<Rightarrow> bool" where
  "re_search m [] = m []"
| "re_search m (c # cs) = (m (c # cs) \<or> re_search m cs)"

text \<open>
  The title prefix
  \<open>^(Ing\.?|Arq\.?|Abg\.?|Dr\.?|Dra\.?|Sr\.?|Sra\.?|Lic\.?|Msc\.?|Mg\.?|MBA\.?|Eco\.?)\s+\<close>
  under \<open>re.IGNORECASE\<close>. The alternatives are tried in order, each first with its dot and
  then without, and the title must be followed by whitespace, which is taken whole.
\<close>

definition espacios1 :: "string \<Rightarrow> string option" where
  "espacios1 r = (if r \<noteq> [] \<and> is_space (hd r) then Some (dropWhile is_space r) else None)"

definition match_titulo :: "string \<Rightarrow> string \<Rightarrow> string option" where
  "match_titulo titulo s =
     (if match_ci titulo s
      then (let r = drop (length titulo) s
            in case (if es_prefijo ''.'' r then espacios1 (drop 1 r) else None) of
                 Some x \<Rightarrow> Some x
               | None \<Rightarrow> espacios1 r)
      else None)"

definition titulos :: "string list" where
  "titulos = [''Ing'', ''Arq'', ''Abg'', ''Dr'', ''Dra'', ''Sr'', ''Sra'', ''Lic'', ''Msc'', ''Mg'',
              ''MBA'', ''Eco'']"

fun primer_titulo :: "string list \<Rightarrow> string \<Rightarrow> string option" where
  "primer_titulo [] s = None"
| "primer_titulo (t # ts) s =
     (case match_titulo t s of Some r \<Rightarrow> Some r | None \<Rightarrow> primer_titulo ts s)"

definition quitar_titulo :: "string \<Rightarrow> string" where
  "quitar_titulo s = (case primer_titulo titulos s of Some r \<Rightarrow> r | None \<Rightarrow> s)"

text \<open>
  The company keywords, as matchers at the head of a text, all under \<open>re.IGNORECASE\<close>:
  \<open>LTDA\<close>, \<open>S\.A\.\<close>, \<open>CONSORCIO\<close>, \<open>CIA\<close>, \<open>EP\<close>, \<open>CIA\s+LTDA\<close>, \<open>COMPA\xd1[\xcdI]A\<close>,
  \<open>gasolinera\<close>, \<open>avenida\<close>, \<open>calle\<close>.
\<close>

definition match_cia_ltda :: "string \<Rightarrow> bool" where
  "match_cia_ltda s =
     (match_ci ''CIA'' s \<and>
      (let r = drop 3 s in r \<noteq> [] \<and> is_space (hd r) \<and> match_ci ''LTDA'' (dropWhile is_space r)))"

definition match_compania :: "string \<Rightarrow> bool" where
  "match_compania s =
     (match_ci (''COMPA'' @ [CHR 0xD1, CHR 0xCD] @ ''A'') s \<or> match_ci (''COMPA'' @ [CHR 0xD1] @ ''IA'') s)"

definition keywords_empresa :: "(string \<Rightarrow> bool) list" where
  "keywords_empresa =
     [match_ci ''LTDA'', match_ci ''S.A.'', match_ci ''CONSORCIO'', match_ci ''CIA'', match_ci ''EP'',
      match_cia_ltda, match_compania, match_ci ''gasolinera'', match_ci ''avenida'', match_ci ''calle'']"

definition cargos_prohibidos :: "string list" where
  "cargos_prohibidos =
     [''Coordinador'', ''Director'', ''Administrador'', ''Gerente'', ''Jefe'', ''Secretario'',
      ''Ministro'', ''Alcalde'', ''Prefecto'', ''Gobernador'']"

text \<open>
  \<open>str.isupper()\<close> of one character below 256, and the two classes of the word pattern
  \<open>^[A-Z\xc1\xc9\xcd\xd3\xda\xd1][a-z\xe1\xe9\xed\xf3\xfa\xf1\s-]*$\<close>. The second class holds
  the newline, so the \<open>$\<close> of the pattern adds nothing to the end of the string.
\<close>

definition is_upper :: "char \<Rightarrow> bool" where
  "is_upper c =
     (let n = (of_char c :: nat)
      in (65 \<le> n \<and> n \<le> 90) \<or> (192 \<le> n \<and> n \<le> 222 \<and> n \<noteq> 215))"

definition mayuscula_es :: "char \<Rightarrow> bool" where
  "mayuscula_es c =
     (let n = (of_char c :: nat)
      in (65 \<le> n \<and> n \<le> 90) \<or> n \<in> set [193, 201, 205, 211, 218, 209])"

definition minuscula_es :: "char \<Rightarrow> bool" where
  "minuscula_es c =
     (let n = (of_char c :: nat)
      in (97 \<le> n \<and> n \<le> 122) \<or> n \<in> set [225, 233, 237, 243, 250, 241])"

definition match_palabra :: "string \<Rightarrow> bool" where
  "match_palabra p =
     (p \<noteq> [] \<and> mayuscula_es (hd p) \<and>
      list_all (\<lambda>c. minuscula_es c \<or> is_space c \<or> c = CHR ''-'') (tl p))"

text \<open>The body of the loop over the words.\<close>

definition palabra_valida :: "string \<Rightarrow> bool" where
  "palabra_valida palabra =
     (if palabra = [] \<or> \<not> is_upper (hd palabra) then False
      else if \<not> match_palabra palabra then False
      else True)"

definition validar_representante :: "string option \<Rightarrow> bool" where
  "validar_representante representante =
     (if \<not> truthy representante then False
      else (let r = strip (quitar_titulo (strip (the representante)))
            in if length r < 6 \<or> length r > 120 then False
               else if list_ex is_digit r then False
               else if list_ex (\<lambda>m. re_search m r) keywords_empresa then False
               else if list_ex (\<lambda>cargo. search_ci cargo r) cargos_prohibidos then False
               else (let palabras = split_ws r
                     in if length palabras < 2 \<or> length palabras > 4 then False
                        else list_all palabra_valida palabras)))"

text \<open>
  The rule as the specification words it: after the title is stripped, two to four
  words, no digit, no company keyword, no office title, six to 120 characters, and
  every word starts with a capital letter and holds only letters (accented or not) and
  hyphens. A keyword is read as a word of the name: a word that is, whatever its case,
  one of the company keywords or one of the ten office titles.
\<close>

definition is_letter :: "char \<Rightarrow> bool" where
  "is_letter c =
     (let n = (of_char c :: nat)
      in (65 \<le> n \<and> n \<le> 90) \<or> (97 \<le> n \<and> n \<le> 122) \<or> (192 \<le> n \<and> n \<noteq> 215 \<and> n \<noteq> 247))"

definition sin_titulo :: "string \<Rightarrow> string" where
  "sin_titulo s = strip (quitar_titulo (strip s))"

definition palabras_empresa :: "string list" where
  "palabras_empresa =
     [''LTDA'', ''S.A.'', ''CONSORCIO'', ''CIA'', ''EP'', ''COMPA'' @ [CHR 0xD1, CHR 0xCD] @ ''A'',
      ''COMPA'' @ [CHR 0xD1] @ ''IA'', ''gasolinera'', ''avenida'', ''calle'']"

definition palabras_cargo :: "string list" where
  "palabras_cargo =
     [''Coordinador'', ''Director'', ''Administrador'', ''Gerente'', ''Jefe'', ''Secretario'',
      ''Ministro'', ''Alcalde'', ''Prefecto'', ''Gobernador'']"

definition es_palabra_clave :: "string list \<Rightarrow> string \<Rightarrow> bool" where
  "es_palabra_clave claves p = list_ex (\<lambda>k. lower p = lower k) claves"

definition palabra_spec :: "string \<Rightarrow> bool" where
  "palabra_spec p =
     (p \<noteq> [] \<and> is_upper (hd p) \<and> list_all (\<lambda>c. is_letter c \<or> c = CHR ''-'') p)"

definition representante_spec :: "string \<Rightarrow> bool" where
  "representante_spec s =
     (let r = sin_titulo s; palabras = split_ws r
      in 2 \<le> length palabras \<and> length palabras \<le> 4 \<and>
         \<not> list_ex is_digit r \<and>
         \<not> list_ex (es_palabra_clave palabras_empresa) palabras \<and>
         \<not> list_ex (es_palabra_clave palabras_cargo) palabras \<and>
         6 \<le> length r \<and> length r \<le> 120 \<and>
         list_all palabra_spec palabras)"

text \<open>
  The same rule with the words of the code: a word is one capital letter of A to Z or of
  the six accented capitals, followed by small letters of a to z, the six accented small
  letters and hyphens only.
\<close>

definition palabra_titulo :: "string \<Rightarrow> bool" where
  "palabra_titulo p =
     (p \<noteq> [] \<and> mayuscula_es (hd p) \<and> list_all (\<lambda>c. minuscula_es c \<or> c = CHR ''-'') (tl p))"

definition representante_titulo :: "string \<Rightarrow> bool" where
  "representante_titulo s =
     (let r = sin_titulo s; palabras = split_ws r
      in 2 \<le> length palabras \<and> length palabras \<le> 4 \<and>
         \<not> list_ex is_digit r \<and>
         \<not> list_ex (es_palabra_clave palabras_empresa) palabras \<and>
         \<not> list_ex (es_palabra_clave palabras_cargo) palabras \<and>
         6 \<le> length r \<and> length r \<le> 120 \<and>
         list_all palabra_titulo palabras)"

text \<open>
  A text in which the letters of no company keyword and of no office title occur, in
  any case, at any place, be it inside a longer word.
\<close>

definition sin_letras_clave :: "string \<Rightarrow> bool" where
  "sin_letras_clave r = (\<not> list_ex (\<lambda>k. search_ci k r) (palabras_empresa @ palabras_cargo))"

text \<open>
  The early returns of \<open>validar_representante\<close> on a string, as one condition: the
  keywords are searched as the code searches them, at any place of the text.
\<close>

definition representante_regla :: "string \<Rightarrow> bool" where
  "representante_regla s =
     (let r = sin_titulo s
      in 2 \<le> length (split_ws r) \<and> length (split_ws r) \<le> 4 \<and>
         \<not> list_ex is_digit r \<and>
         \<not> list_ex (\<lambda>m. re_search m r) keywords_empresa \<and>
         \<not> list_ex (\<lambda>cargo. search_ci cargo r) cargos_prohibidos \<and>
         6 \<le> length r \<and> length r \<le> 120 \<and>
         list_all palabra_titulo (split_ws r))"

section \<open>The cleaners of names (\<open>limpiar_razon_social\<close>, \<open>limpiar_nombre_persona\<close>)\<close>

text \<open>\<open>re.sub(r"\s+", " ", s)\<close>: every maximal run of whitespace becomes one space.\<close>

function sub_espacios :: "string \<Rightarrow> string" where
  "sub_espacios [] = []"
| "sub_espacios (c # cs) =
     (if is_space c then SP # sub_espacios (dropWhile is_space cs) else c # sub_espacios cs)"
  by pat_completeness auto
termination
  by (relation "measure length") (auto simp: less_Suc_eq_le length_dropWhile_le)

text \<open>
  A prefix pattern such as \<open>^por\s+otra\s+parte\s+\<close> under \<open>re.IGNORECASE\<close>, given by its
  words: each word is read at the head and must be followed by whitespace, which is
  taken whole. The result is the text after the match.
\<close>

fun match_palabras :: "string list \<Rightarrow> string \<Rightarrow> string option" where
  "match_palabras [] s = Some s"
| "match_palabras (w # ws) s =
     (if match_ci w s
      then (case espacios1 (drop (length w) s) of
              Some r \<Rightarrow> match_palabras ws r
            | None \<Rightarrow> None)
      else None)"

definition quitar_prefijo :: "string list \<Rightarrow> string \<Rightarrow> string" where
  "quitar_prefijo ws s = (case match_palabras ws s of Some r \<Rightarrow> r | None \<Rightarrow> s)"

definition prefijos_remover :: "string list list" where
  "prefijos_remover =
     [[''a''], [''la''], [''el''], [''los''], [''las''],
      [''y'', ''por'', ''la'', ''otra'', ''parte''],
      [''por'', ''otra'', ''parte''],
      [''y'', ''por'', ''otra'', ''parte''],
      [''la'', ''empresa''], [''el'', ''oferente''], [''la'', ''oferente''],
      [''en'', ''calidad'', ''de'', ''Representante'', ''Legal'', ''de''],
      [''representante'', ''legal'', ''de''],
      [''representado'', ''por'']]"

text \<open>
  \<open>limpiar_razon_social(razon)\<close> for a string; the prefixes are removed one after the
  other, in the order of the list, each followed by \<open>strip\<close>.
\<close>

definition limpiar_razon_social :: "string \<Rightarrow> string option" where
  "limpiar_razon_social razon =
     (if razon = [] then None
      else (let r1 = strip razon;
                r2 = replace_char TAB [SP] (replace_char CR [SP] (replace_char NL [SP] r1));
                r3 = strip (sub_espacios r2);
                r4 = foldl (\<lambda>r prefijo. strip (quitar_prefijo prefijo r)) r3 prefijos_remover
            in if 3 \<le> length r4 then Some r4 else None))"

text \<open>
  The title prefix of \<open>limpiar_nombre_persona\<close>,
  \<open>^(Ing\.?|Dr\.?|Dra\.?|Sr\.?|Sra\.?|Lcdo\.?|Lic\.?|Arq\.?|Abg\.?|Msc\.?|Mg\.?|PhD\.?|Eco\.?|C\.?|Ing\.|Lcd[aou]\.?)\s*\<close>
  under \<open>re.IGNORECASE\<close>. The dot and the whitespace may be missing, so the first
  alternative whose letters are at the head of the text is the match. An alternative is
  its letters and whether its dot is optional (the dot of \<open>Ing\.\<close> belongs to the letters).
\<close>

definition titulos_persona :: "(string \<times> bool) list" where
  "titulos_persona =
     [(''Ing'', True), (''Dr'', True), (''Dra'', True), (''Sr'', True), (''Sra'', True),
      (''Lcdo'', True), (''Lic'', True), (''Arq'', True), (''Abg'', True), (''Msc'', True),
      (''Mg'', True), (''PhD'', True), (''Eco'', True), (''C'', True), (''Ing.'', False),
      (''Lcda'', True), (''Lcdo'', True), (''Lcdu'', True)]"

definition match_titulo_persona :: "string \<times> bool \<Rightarrow> string \<Rightarrow> string option" where
  "match_titulo_persona alt s =
     (if match_ci (fst alt) s
      then (let r = drop (length (fst alt)) s;
                r' = (if snd alt \<and> es_prefijo ''.'' r then drop 1 r else r)
            in Some (dropWhile is_space r'))
      else None)"

text \<open>The first alternative of a list that matches.\<close>

fun primero :: "('a \<Rightarrow> 'b option) \<Rightarrow> 'a list \<Rightarrow> 'b option" where
  "primero f [] = None"
| "primero f (x # xs) = (case f x of Some y \<Rightarrow> Some y | None \<Rightarrow> primero f xs)"

definition quitar_titulo_persona :: "string \<Rightarrow> string" where
  "quitar_titulo_persona s =
     (case primero (\<lambda>alt. match_titulo_persona alt s) titulos_persona of
        Some r \<Rightarrow> r
      | None \<Rightarrow> s)"

text \<open>
  \<open>re.sub(r"[,;:.]+$", "", nombre)\<close>: a run of these marks is removed when it reaches the
  end of the string, or the newline that ends it.
\<close>

definition es_puntuacion :: "char \<Rightarrow> bool" where
  "es_puntuacion c = (c \<in> set '',;:.'')"

fun quitar_puntuacion_final :: "string \<Rightarrow> string" where
  "quitar_puntuacion_final [] = []"
| "quitar_puntuacion_final (c # cs) =
     (if es_puntuacion c \<and> (dropWhile es_puntuacion cs = [] \<or> dropWhile es_puntuacion cs = [NL])
      then dropWhile es_puntuacion cs
      else c # quitar_puntuacion_final cs)"

text \<open>
  Word characters of \<open>\b\<close> below 256: letters, digits and other numeric characters, and
  the underscore. \<open>limite prev s\<close> is \<open>\b\<close> between the character before and the text
  that follows.
\<close>

definition is_word :: "char \<Rightarrow> bool" where
  "is_word c =
     (let n = (of_char c :: nat)
      in (48 \<le> n \<and> n \<le> 57) \<or> (65 \<le> n \<and> n \<le> 90) \<or> n = 95 \<or> (97 \<le> n \<and> n \<le> 122)
         \<or> n \<in> set [170, 178, 179, 181, 185, 186, 188, 189, 190]
         \<or> (192 \<le> n \<and> n \<noteq> 215 \<and> n \<noteq> 247))"

definition word_at :: "string \<Rightarrow> bool" where
  "word_at s = (s \<noteq> [] \<and> is_word (hd s))"

definition limite :: "char option \<Rightarrow> string \<Rightarrow> bool" where
  "limite prev s = ((case prev of None \<Rightarrow> False | Some p \<Rightarrow> is_word p) \<noteq> word_at s)"

text \<open>
  The phrase pattern
  \<open>\b(en\s+su\s+calidad\s+de|quien\s+act[\xfau]a|legalmente\s+representad[oa]\s+por)\b.*$\<close>
  under \<open>re.IGNORECASE\<close>. A phrase is its words; after the phrase comes a word boundary,
  and \<open>.*$\<close> reads to the end of the string when no newline is left but, at most, the
  last character. \<open>cola_frase\<close> gives what is left after the match.
\<close>

definition frases :: "string list list" where
  "frases =
     [[''en'', ''su'', ''calidad'', ''de''],
      [''quien'', ''act'' @ [CHR 0xFA] @ ''a''], [''quien'', ''actua''],
      [''legalmente'', ''representado'', ''por''], [''legalmente'', ''representada'', ''por'']]"

fun match_frase :: "string list \<Rightarrow> string \<Rightarrow> string option" where
  "match_frase [] s = None"
| "match_frase [w] s = (if match_ci w s then Some (drop (length w) s) else None)"
| "match_frase (w # v # ws) s =
     (if match_ci w s
      then (case espacios1 (drop (length w) s) of
              Some r \<Rightarrow> match_frase (v # ws) r
            | None \<Rightarrow> None)
      else None)"

definition cola_frase :: "string \<Rightarrow> string option" where
  "cola_frase r =
     (let q = dropWhile (\<lambda>c. c \<noteq> NL) r
      in if q = [] then Some [] else if q = [NL] then Some [NL] else None)"

definition match_frase_final :: "char option \<Rightarrow> string \<Rightarrow> string option" where
  "match_frase_final prev s =
     (if limite prev s
      then primero (\<lambda>f. case match_frase f s of
                           Some r \<Rightarrow> if word_at r then None else cola_frase r
                         | None \<Rightarrow> None) frases
      else None)"

fun quitar_frase :: "char option \<Rightarrow> string \<Rightarrow> string" where
  "quitar_frase prev [] = []"
| "quitar_frase prev (c # cs) =
     (case match_frase_final prev (c # cs) of
        Some r \<Rightarrow> r
      | None \<Rightarrow> c # quitar_frase (Some c) cs)"

text \<open>
  The class \<open>[A-Za-z\xc1\xc9\xcd\xd3\xda\xd1\xf1]\<close> and the pattern of two words
  \<open>[A-Za-z...]+\s+[A-Za-z...]+\<close>, at the head of a text.
\<close>

definition letra_nombre :: "char \<Rightarrow> bool" where
  "letra_nombre c =
     (let n = (of_char c :: nat)
      in (65 \<le> n \<and> n \<le> 90) \<or> (97 \<le> n \<and> n \<le> 122)
         \<or> n \<in> set [193, 201, 205, 211, 218, 209, 241])"

definition match_dos_palabras :: "string \<Rightarrow> bool" where
  "match_dos_palabras s =
     (s \<noteq> [] \<and> letra_nombre (hd s) \<and>
      (let r = dropWhile letra_nombre s
       in r \<noteq> [] \<and> is_space (hd r) \<and>
          (let q = dropWhile is_space r in q \<noteq> [] \<and> letra_nombre (hd q))))"

text \<open>
  \<open>tokens_invalidos\<close>: one of the words below between two word boundaries, under
  \<open>re.IGNORECASE\<close>; \<open>buscar_con_limite\<close> is \<open>search\<close> for a matcher that looks at the
  character before.
\<close>

definition tokens_invalidos :: "string list" where
  "tokens_invalidos =
     [''direccion'', ''direcci'' @ [CHR 0xF3] @ ''n'', ''coordinacion'', ''coordinaci'' @ [CHR 0xF3] @ ''n'',
      ''prefecto'', ''prefectura'', ''gerencia'', ''departamento'',
      ''contratacion'', ''contrataci'' @ [CHR 0xF3] @ ''n'', ''ruc'', ''domicilio'', ''correo'', ''mail'',
      ''telefono'', ''tel'' @ [CHR 0xE9] @ ''fono'', ''seccion'', ''secci'' @ [CHR 0xF3] @ ''n'',
      ''unidad'', ''calle'', ''ciudad'', ''provincia'', ''ecuador'']"

definition match_token_invalido :: "char option \<Rightarrow> string \<Rightarrow> bool" where
  "match_token_invalido prev s =
     (limite prev s \<and>
      list_ex (\<lambda>lit. match_ci lit s \<and> \<not> word_at (drop (length lit) s)) tokens_invalidos)"

fun buscar_con_limite :: "(char option \<Rightarrow> string \<Rightarrow> bool) \<Rightarrow> char option \<Rightarrow> string \<Rightarrow> bool" where
  "buscar_con_limite m prev [] = m prev []"
| "buscar_con_limite m prev (c # cs) = (m prev (c # cs) \<or> buscar_con_limite m (Some c) cs)"

text \<open>\<open>part.strip(".")\<close>\<close>

definition strip_puntos :: "string \<Rightarrow> string" where
  "strip_puntos p =
     rev (dropWhile (\<lambda>c. c = CHR ''.'') (rev (dropWhile (\<lambda>c. c = CHR ''.'') p)))"

text \<open>
  \<open>limpiar_nombre_persona(valor)\<close> for a string. \<open>str.capitalize\<close> is a parameter: its
  upper-case forms are not all below 256.
\<close>

definition limpiar_nombre_persona :: "(string \<Rightarrow> string) \<Rightarrow> string \<Rightarrow> string option" where
  "limpiar_nombre_persona capitalize valor =
     (if valor = [] then None
      else (let n1 = quitar_titulo_persona (strip valor);
                n2 = strip (quitar_puntuacion_final n1);
                n3 = strip (quitar_frase None n2);
                nombre = filter (\<lambda>c. \<not> is_digit c) n3
            in if \<not> re_search match_dos_palabras nombre then None
               else if buscar_con_limite match_token_invalido None nombre then None
               else if length nombre > 120 then None
               else (let partes_validas =
                           map capitalize
                             (filter (\<lambda>limpio. 2 \<le> length limpio \<and> list_ex letra_nombre limpio)
                                (map strip_puntos (split_ws nombre)))
                     in if length partes_validas < 2 then None
                        else Some (join [SP] partes_validas))))"

text \<open>\<open>capitalize\<close> on words of unaccented letters, for examples.\<close>

definition capitalize_ascii :: "string \<Rightarrow> string" where
  "capitalize_ascii w =
     (case w of [] \<Rightarrow> []
      | c # cs \<Rightarrow>
          (let n = (of_char c :: nat)
           in (if 97 \<le> n \<and> n \<le> 122 then char_of (n - 32) else c)) # lower cs)"

section \<open>Properties of the normalizer\<close>

lemma replace_char_set_del: "old \<notin> set (replace_char old [] s)"
  by (induction s) (auto simp: replace_char_def)

lemma replace_char_id: "old \<notin> set s \<Longrightarrow> replace_char old new s = s"
  by (induction s) (auto simp: replace_char_def)

lemma replace_char_set_other:
  "c \<notin> set s \<Longrightarrow> c \<notin> set new \<Longrightarrow> c \<notin> set (replace_char old new s)"
  by (induction s) (auto simp: replace_char_def)

lemma replace_char_set_gone:
  "old \<notin> set new \<Longrightarrow> old \<notin> set (replace_char old new s)"
  by (induction s) (auto simp: replace_char_def)

lemma set_sub_blanks: "set (sub_blanks s) \<subseteq> insert SP (set s)"
proof (induction s rule: sub_blanks.induct)
  case 1
  show ?case by simp
next
  case (2 c cs)
  have "set (dropWhile is_blank cs) \<subseteq> set cs"
    by (rule set_dropWhileD [THEN subsetI])
  with 2 show ?case by auto
qed

lemma sub_blanks_no_tab: "TAB \<notin> set (sub_blanks s)"
  by (induction s rule: sub_blanks.induct) (auto simp: is_blank_def)

lemma sub_blanks_hd: "\<not> is_blank c \<Longrightarrow> sub_blanks (c # cs) = c # sub_blanks cs"
  by simp

lemma no_sp2_Cons: "no_sp2 (a # s) = ((a = SP \<longrightarrow> s = [] \<or> hd s \<noteq> SP) \<and> no_sp2 s)"
  by (cases s) auto

lemma sub_blanks_hd_not_sp:
  "s = [] \<or> \<not> is_blank (hd s) \<Longrightarrow> sub_blanks s = [] \<or> hd (sub_blanks s) \<noteq> SP"
  by (cases s) (auto simp: is_blank_def)

lemma dropWhile_hd_not: "dropWhile P s = [] \<or> \<not> P (hd (dropWhile P s))"
  by (metis hd_dropWhile)

lemma sub_blanks_no_sp2: "no_sp2 (sub_blanks s)"
proof (induction s rule: sub_blanks.induct)
  case 1
  show ?case by simp
next
  case (2 c cs)
  show ?case
  proof (cases "is_blank c")
    case True
    have "sub_blanks (dropWhile is_blank cs) = [] \<or> hd (sub_blanks (dropWhile is_blank cs)) \<noteq> SP"
      by (rule sub_blanks_hd_not_sp) (rule dropWhile_hd_not)
    with True 2 show ?thesis by (simp add: no_sp2_Cons)
  next
    case False
    then have "c \<noteq> SP" by (simp add: is_blank_def)
    with False 2 show ?thesis by (simp add: no_sp2_Cons)
  qed
qed

lemma sub_blanks_id: "TAB \<notin> set s \<Longrightarrow> no_sp2 s \<Longrightarrow> sub_blanks s = s"
proof (induction s rule: sub_blanks.induct)
  case 1
  show ?case by simp
next
  case (2 c cs)
  show ?case
  proof (cases "is_blank c")
    case True
    with 2(3) have c: "c = SP" by (auto simp: is_blank_def)
    have "dropWhile is_blank cs = cs"
    proof (cases cs)
      case Nil
      then show ?thesis by simp
    next
      case (Cons d ds)
      with 2(3,4) c have "\<not> is_blank d" by (auto simp: is_blank_def)
      with Cons show ?thesis by simp
    qed
    with True c 2 show ?thesis by (simp add: no_sp2_Cons)
  next
    case False
    with 2 show ?thesis by (simp add: no_sp2_Cons)
  qed
qed

lemma set_sub_newlines: "set (sub_newlines s) \<subseteq> set s"
proof (induction s rule: sub_newlines.induct)
  case 1
  show ?case by simp
next
  case (2 c cs)
  have "set (dropWhile is_nl cs) \<subseteq> set cs"
    by (rule set_dropWhileD [THEN subsetI])
  with 2 show ?case by (auto simp: is_nl_def)
qed

lemma sub_newlines_hd: "sub_newlines (c # cs) \<noteq> [] \<and> hd (sub_newlines (c # cs)) = c"
  by (simp add: is_nl_def)

lemma is_nl_NL: "is_nl NL"
  by (simp add: is_nl_def)

lemma nlrun_dropWhile: "length (takeWhile is_nl (dropWhile is_nl s)) = 0"
  by (induction s) auto

lemma nlrun_sub_newlines:
  "length (takeWhile is_nl (sub_newlines s)) = min 2 (length (takeWhile is_nl s))"
proof (induction s rule: sub_newlines.induct)
  case 1
  show ?case by simp
next
  case (2 c cs)
  show ?case
  proof (cases "is_nl c \<and> 2 \<le> length (takeWhile is_nl cs)")
    case True
    with 2(1) show ?thesis by (simp add: nlrun_dropWhile is_nl_NL)
  next
    case False
    with 2(2) show ?thesis by auto
  qed
qed

lemma no_nl3_Cons:
  "no_nl3 (a # s) = ((a = NL \<longrightarrow> length (takeWhile is_nl s) < 2) \<and> no_nl3 s)"
proof (cases s)
  case Nil
  then show ?thesis by simp
next
  case (Cons b t)
  then show ?thesis by (cases t) (auto simp: is_nl_def)
qed

lemma no_nl3_Cons':
  "no_nl3 (a # s) = ((is_nl a \<longrightarrow> length (takeWhile is_nl s) < 2) \<and> no_nl3 s)"
  by (simp add: no_nl3_Cons is_nl_def)

lemma sub_newlines_no_nl3: "no_nl3 (sub_newlines s)"
proof (induction s rule: sub_newlines.induct)
  case 1
  show ?case by simp
next
  case (2 c cs)
  show ?case
  proof (cases "is_nl c \<and> 2 \<le> length (takeWhile is_nl cs)")
    case True
    with 2(1) show ?thesis
      by (simp add: no_nl3_Cons' nlrun_sub_newlines nlrun_dropWhile is_nl_NL)
  next
    case False
    with 2(2) show ?thesis
      by (auto simp: no_nl3_Cons' nlrun_sub_newlines)
  qed
qed

lemma no_sp2_dropWhile: "no_sp2 s \<Longrightarrow> no_sp2 (dropWhile P s)"
  by (induction s) (auto simp: no_sp2_Cons)

lemma sub_newlines_no_sp2: "no_sp2 s \<Longrightarrow> no_sp2 (sub_newlines s)"
proof (induction s rule: sub_newlines.induct)
  case 1
  show ?case by simp
next
  case (2 c cs)
  from 2(3) have cs: "no_sp2 cs" by (simp add: no_sp2_Cons)
  show ?case
  proof (cases "is_nl c \<and> 2 \<le> length (takeWhile is_nl cs)")
    case True
    with 2(1) cs show ?thesis by (simp add: no_sp2_Cons no_sp2_dropWhile)
  next
    case False
    have "c = SP \<longrightarrow> sub_newlines cs = [] \<or> hd (sub_newlines cs) \<noteq> SP"
    proof (cases cs)
      case Nil
      then show ?thesis by simp
    next
      case (Cons d ds)
      with 2(3) have "c = SP \<longrightarrow> d \<noteq> SP" by (simp add: no_sp2_Cons)
      with Cons sub_newlines_hd [of d ds] show ?thesis by simp
    qed
    with False 2(2) cs show ?thesis by (auto simp: no_sp2_Cons)
  qed
qed

lemma sub_newlines_id: "no_nl3 s \<Longrightarrow> sub_newlines s = s"
proof (induction s rule: sub_newlines.induct)
  case 1
  show ?case by simp
next
  case (2 c cs)
  from 2(3) have c: "\<not> (is_nl c \<and> 2 \<le> length (takeWhile is_nl cs))" and cs: "no_nl3 cs"
    by (auto simp: no_nl3_Cons')
  from 2(2) [OF c cs] c show ?case by auto
qed

lemma normalizar_shape:
  "CR \<notin> set (normalizar x) \<and> TAB \<notin> set (normalizar x) \<and>
   no_sp2 (normalizar x) \<and> no_nl3 (normalizar x)"
proof -
  let ?a = "replace_char TAB [SP] (replace_char CR [] x)"
  have "CR \<notin> set ?a"
    by (rule replace_char_set_other) (simp_all add: replace_char_set_del)
  then have "CR \<notin> set (sub_blanks ?a)"
    using set_sub_blanks [of ?a] by auto
  then have 1: "CR \<notin> set (normalizar x)"
    unfolding normalizar_def using set_sub_newlines [of "sub_blanks ?a"] by auto
  have 2: "TAB \<notin> set (normalizar x)"
    unfolding normalizar_def
    using set_sub_newlines [of "sub_blanks ?a"] sub_blanks_no_tab [of ?a] by auto
  have 3: "no_sp2 (normalizar x)"
    unfolding normalizar_def by (rule sub_newlines_no_sp2) (rule sub_blanks_no_sp2)
  have 4: "no_nl3 (normalizar x)"
    unfolding normalizar_def by (rule sub_newlines_no_nl3)
  from 1 2 3 4 show ?thesis by simp
qed

lemma normalizar_fixed:
  "CR \<notin> set s \<Longrightarrow> TAB \<notin> set s \<Longrightarrow> no_sp2 s \<Longrightarrow> no_nl3 s \<Longrightarrow> normalizar s = s"
  by (simp add: normalizar_def replace_char_id sub_blanks_id sub_newlines_id)

lemma filter_replace_char:
  "\<not> P old \<Longrightarrow> filter P new = [] \<Longrightarrow> filter P (replace_char old new s) = filter P s"
  by (induction s) (auto simp: replace_char_def)

lemma filter_dropWhile_other:
  "(\<And>c. Q c \<Longrightarrow> \<not> P c) \<Longrightarrow> filter P (dropWhile Q s) = filter P s"
  by (induction s) auto

lemma filter_sub_blanks:
  assumes "\<And>c. is_blank c \<Longrightarrow> \<not> P c"
  shows "filter P (sub_blanks s) = filter P s"
proof (induction s rule: sub_blanks.induct)
  case 1
  show ?case by simp
next
  case (2 c cs)
  have sp: "\<not> P SP" by (rule assms) (simp add: is_blank_def)
  show ?case
  proof (cases "is_blank c")
    case True
    with 2(1) assms [of c] sp filter_dropWhile_other [of is_blank P cs] assms
    show ?thesis by simp
  next
    case False
    with 2(2) show ?thesis by simp
  qed
qed

lemma filter_sub_newlines:
  assumes "\<not> P NL"
  shows "filter P (sub_newlines s) = filter P s"
proof (induction s rule: sub_newlines.induct)
  case 1
  show ?case by simp
next
  case (2 c cs)
  have nl: "\<And>d. is_nl d \<Longrightarrow> \<not> P d" using assms by (simp add: is_nl_def)
  show ?case
  proof (cases "is_nl c \<and> 2 \<le> length (takeWhile is_nl cs)")
    case True
    with 2(1) assms nl [of c] filter_dropWhile_other [of is_nl P cs] nl
    show ?thesis by simp
  next
    case False
    with 2(2) show ?thesis by auto
  qed
qed

lemma normalizar_content:
  "filter (\<lambda>c. \<not> norm_space c) (normalizar x) = filter (\<lambda>c. \<not> norm_space c) x"
proof -
  let ?P = "\<lambda>c. \<not> norm_space c"
  let ?a = "replace_char CR [] x"
  let ?b = "replace_char TAB [SP] ?a"
  have "filter ?P (normalizar x) = filter ?P (sub_blanks ?b)"
    unfolding normalizar_def by (rule filter_sub_newlines) (simp add: norm_space_def)
  also have "\<dots> = filter ?P ?b"
    by (rule filter_sub_blanks) (auto simp: norm_space_def is_blank_def)
  also have "\<dots> = filter ?P ?a"
    by (rule filter_replace_char) (simp_all add: norm_space_def)
  also have "\<dots> = filter ?P x"
    by (rule filter_replace_char) (simp_all add: norm_space_def)
  finally show ?thesis .
qed

text \<open>The regular expressions do what the rule says.\<close>

lemma replace_char_filter: "replace_char old [] s = filter (\<lambda>c. c \<noteq> old) s"
  by (induction s) (auto simp: replace_char_def)

lemma replace_char_map: "replace_char old [new] s = map (\<lambda>c. if c = old then new else c) s"
  by (induction s) (auto simp: replace_char_def)

lemma sub_blanks_previo:
  fixes F :: "char option \<Rightarrow> string \<Rightarrow> string"
  defines "F \<equiv> \<lambda>q t. map snd (filter (\<lambda>x. \<not> espacio_repetido x) (zip (q # map Some t) t))"
  shows "TAB \<notin> set s \<Longrightarrow>
     F p s = (if p = Some SP then sub_blanks (dropWhile is_blank s) else sub_blanks s)"
proof (induction s arbitrary: p)
  case Nil
  show ?case by (simp add: F_def)
next
  case (Cons c cs)
  from Cons.prems have c: "c \<noteq> TAB" and t: "TAB \<notin> set cs" by auto
  have step: "F p (c # cs) = (if p = Some SP \<and> c = SP then [] else [c]) @ F (Some c) cs"
    by (simp add: F_def espacio_repetido_def)
  from c have bl: "is_blank c = (c = SP)" by (simp add: is_blank_def)
  show ?case
    by (simp add: step Cons.IH [OF t] bl)
qed

lemma sub_blanks_regla: "TAB \<notin> set s \<Longrightarrow> sub_blanks s = quitar_espacio_repetido s"
  using sub_blanks_previo [of s None] by (simp add: quitar_espacio_repetido_def con_previo_def)

lemma sub_newlines_NL:
  "sub_newlines (NL # cs) =
     (if cs \<noteq> [] \<and> hd cs = NL then NL # NL # sub_newlines (dropWhile is_nl cs)
      else NL # sub_newlines cs)"
proof (cases cs)
  case Nil
  then show ?thesis by (simp add: is_nl_NL)
next
  case (Cons d ds)
  show ?thesis
  proof (cases "d = NL")
    case False
    with Cons show ?thesis by (simp add: is_nl_def)
  next
    case True
    show ?thesis
    proof (cases "ds \<noteq> [] \<and> hd ds = NL")
      case True
      with \<open>d = NL\<close> Cons show ?thesis by (cases ds) (simp_all add: is_nl_def)
    next
      case False
      then have "takeWhile is_nl ds = []" "dropWhile is_nl ds = ds"
        by (cases ds; simp add: is_nl_def)+
      with \<open>d = NL\<close> Cons show ?thesis by (simp add: is_nl_def)
    qed
  qed
qed

lemma sub_newlines_previos:
  fixes G :: "char option \<Rightarrow> char option \<Rightarrow> string \<Rightarrow> string"
  defines "G \<equiv> \<lambda>a b t. map snd (filter (\<lambda>x. \<not> salto_tercero x)
                                   (zip (zip (a # b # map Some t) (b # map Some t)) t))"
  shows "G a b s =
   (if b = Some NL
    then (if a = Some NL then sub_newlines (dropWhile is_nl s)
          else if s \<noteq> [] \<and> hd s = NL then NL # sub_newlines (dropWhile is_nl s)
          else sub_newlines s)
    else sub_newlines s)"
proof (induction s arbitrary: a b)
  case Nil
  show ?case by (simp add: G_def)
next
  case (Cons c cs)
  have step: "G a b (c # cs) = (if a = Some NL \<and> b = Some NL \<and> c = NL then [] else [c]) @ G b (Some c) cs"
    by (simp add: G_def salto_tercero_def)
  show ?case
  proof (cases "c = NL")
    case False
    then have "sub_newlines (c # cs) = c # sub_newlines cs" "dropWhile is_nl (c # cs) = c # cs"
      by (simp_all add: is_nl_def)
    with False show ?thesis by (simp add: step Cons.IH del: sub_newlines.simps)
  next
    case True
    have d: "dropWhile is_nl (NL # cs) = dropWhile is_nl cs" by (simp add: is_nl_def)
    have st: "G a b (NL # cs) = (if a = Some NL \<and> b = Some NL then [] else [NL]) @ G b (Some NL) cs"
      using step True by simp
    have ih: "G b (Some NL) cs =
        (if b = Some NL then sub_newlines (dropWhile is_nl cs)
         else if cs \<noteq> [] \<and> hd cs = NL then NL # sub_newlines (dropWhile is_nl cs)
         else sub_newlines cs)"
      by (simp add: Cons.IH)
    show ?thesis
      unfolding True st ih d sub_newlines_NL by simp
  qed
qed

lemma sub_newlines_regla: "sub_newlines s = quitar_salto_tercero s"
  using sub_newlines_previos [of None None s]
  by (simp add: quitar_salto_tercero_def con_previos2_def)

lemma normalizar_regla_eq: "normalizar x = normalizar_regla x"
proof -
  let ?a = "map (\<lambda>c. if c = TAB then SP else c) (filter (\<lambda>c. c \<noteq> CR) x)"
  have "TAB \<notin> set ?a" by auto
  then have "sub_blanks ?a = quitar_espacio_repetido ?a" by (rule sub_blanks_regla)
  then show ?thesis
    by (simp add: normalizar_def normalizar_regla_def replace_char_filter replace_char_map
        sub_newlines_regla)
qed

section \<open>Claims about the normalizer\<close>

text \<open>
  C8, as the specification states it, fails twice. A carriage return is deleted, not
  turned into a space: on the text a, CR, b the code gives \<open>ab\<close>, the specification's
  normalizer \<open>a b\<close>. And blank lines are collapsed to one, not to two: on a and b with
  four newlines between them (three blank lines) the code leaves two newlines, one blank
  line, where the specification's normalizer leaves three newlines, two blank lines.
\<close>

theorem C8_cr_counterexample:
  "normalizar [CHR ''a'', CR, CHR ''b''] = ''ab'' \<and>
   normalizar_spec [CHR ''a'', CR, CHR ''b''] = ''a b'' \<and>
   normalizar [CHR ''a'', NL, NL, NL, NL, CHR ''b''] = [CHR ''a'', NL, NL, CHR ''b''] \<and>
   normalizar_spec [CHR ''a'', NL, NL, NL, NL, CHR ''b''] = [CHR ''a'', NL, NL, NL, CHR ''b'']"
  by (simp add: normalizar_def normalizar_spec_def replace_char_def is_blank_def is_nl_def
      quitar_espacio_repetido_def quitar_salto_cuarto_def con_previo_def con_previos3_def
      espacio_repetido_def salto_cuarto_def)

text \<open>
  C8, amended. For every raw text, the output of the normalizer is the text with its
  carriage returns deleted, its tabs turned into spaces, every space that follows a space
  dropped and every newline that follows two newlines dropped: every run of horizontal
  whitespace becomes one space and every run of three or more newlines becomes exactly
  two newlines. So the output has no carriage return, no tab, no two adjacent spaces and
  no three adjacent newlines, and every character that is not a carriage return, tab,
  space or newline is kept, in order.
\<close>

theorem C8_normalizar_amended:
  "normalizar x = normalizar_regla x \<and>
   CR \<notin> set (normalizar x) \<and> TAB \<notin> set (normalizar x) \<and>
   no_sp2 (normalizar x) \<and> no_nl3 (normalizar x) \<and>
   filter (\<lambda>c. \<not> norm_space c) (normalizar x) = filter (\<lambda>c. \<not> norm_space c) x"
  using normalizar_regla_eq [of x] normalizar_shape [of x] normalizar_content [of x] by simp

text \<open>
  C9. The normalizer is idempotent: for every text \<open>x\<close>, normalising the normalised text
  gives the normalised text again.
\<close>

theorem C9_normalizar_idempotent: "normalizar (normalizar x) = normalizar x"
  using normalizar_shape [of x] by (simp add: normalizar_fixed)

section \<open>Properties of the merge\<close>

lemma dict_get_fusionar_campo:
  "dict_get (fusionar_campo nuevo r a) c =
     (if a = c \<and> \<not> con_valor (dict_get r c) \<and> con_valor (dict_get nuevo c)
      then dict_get nuevo c else dict_get r c)"
  by (auto simp: fusionar_campo_def Let_def dict_get_def con_valor_def)

lemma dict_get_foldl_fusionar_campo:
  "dict_get (foldl (fusionar_campo nuevo) r cs) c =
     (if c \<in> set cs \<and> \<not> con_valor (dict_get r c) \<and> con_valor (dict_get nuevo c)
      then dict_get nuevo c else dict_get r c)"
proof (induction cs arbitrary: r)
  case Nil
  show ?case by simp
next
  case (Cons a cs)
  show ?case
    by (auto simp: Cons.IH dict_get_fusionar_campo)
qed

lemma dict_get_fusionar_resultados:
  "dict_get (fusionar_resultados base nuevo) c =
     (if c \<in> set campos \<and> \<not> con_valor (dict_get base c) \<and> con_valor (dict_get nuevo c)
      then dict_get nuevo c else dict_get base c)"
  by (simp add: fusionar_resultados_def dict_get_foldl_fusionar_campo)

lemma fusionar_chunks_keeps:
  "con_valor (dict_get acc c) \<Longrightarrow> dict_get (fusionar_chunks acc ps) c = dict_get acc c"
  unfolding fusionar_chunks_def
  by (induction ps arbitrary: acc) (simp_all add: dict_get_fusionar_resultados)

lemma fusionar_chunks_skips:
  "\<not> con_valor (dict_get acc c) \<Longrightarrow> list_all (\<lambda>p. \<not> con_valor (dict_get p c)) pre \<Longrightarrow>
   dict_get (fusionar_chunks acc pre) c = dict_get acc c"
  unfolding fusionar_chunks_def
  by (induction pre arbitrary: acc) (simp_all add: dict_get_fusionar_resultados)

lemma fusionar_chunks_append:
  "fusionar_chunks acc (pre @ p # post) =
     fusionar_chunks (fusionar_resultados (fusionar_chunks acc pre) p) post"
  by (simp add: fusionar_chunks_def)

section \<open>Claim about the merge\<close>

text \<open>
  C3. For each of the six fields: when the accumulator holds a value (not \<open>None\<close> and not
  one of "null", "none", ""), \<open>fusionar_resultados\<close> keeps it; when the accumulator's
  field is empty and the new result has a value, the merge takes the new value. In the
  left-to-right fold over the chunks, a field that is set is never overwritten by a later
  chunk, and an empty field takes the value of the first chunk that has one.
\<close>

theorem C3_fusionar_first_wins:
  assumes "campo \<in> set campos"
  shows "(con_valor (dict_get base campo) \<longrightarrow>
            dict_get (fusionar_resultados base nuevo) campo = dict_get base campo) \<and>
         (\<not> con_valor (dict_get base campo) \<and> con_valor (dict_get nuevo campo) \<longrightarrow>
            dict_get (fusionar_resultados base nuevo) campo = dict_get nuevo campo) \<and>
         (con_valor (dict_get base campo) \<longrightarrow>
            dict_get (fusionar_chunks base parciales) campo = dict_get base campo) \<and>
         (\<not> con_valor (dict_get base campo) \<and>
          list_all (\<lambda>p. \<not> con_valor (dict_get p campo)) pre \<and> con_valor (dict_get nuevo campo) \<longrightarrow>
            dict_get (fusionar_chunks base (pre @ nuevo # post)) campo = dict_get nuevo campo)"
proof -
  have "dict_get (fusionar_chunks base (pre @ nuevo # post)) campo = dict_get nuevo campo"
    if h: "\<not> con_valor (dict_get base campo)"
      "list_all (\<lambda>p. \<not> con_valor (dict_get p campo)) pre" "con_valor (dict_get nuevo campo)"
  proof -
    let ?a = "fusionar_chunks base pre"
    have a: "dict_get ?a campo = dict_get base campo"
      using h(1,2) by (rule fusionar_chunks_skips)
    have b: "dict_get (fusionar_resultados ?a nuevo) campo = dict_get nuevo campo"
      using assms h(1,3) a by (simp add: dict_get_fusionar_resultados)
    show ?thesis
      using h(3) b by (simp add: fusionar_chunks_append fusionar_chunks_keeps)
  qed
  then show ?thesis
    using assms by (simp add: dict_get_fusionar_resultados fusionar_chunks_keeps)
qed

text \<open>
  The claim at the tax-ID field: the first chunk has no value, the second and the third
  each have one; the fold from the initial accumulator keeps the second chunk's.
\<close>

theorem C3_fusionar_first_wins_witness:
  "dict_get (fusionar_chunks resultado_inicial
      [[''ruc'' \<mapsto> Some ''null''], [''ruc'' \<mapsto> Some ''1790012345001''],
       [''ruc'' \<mapsto> Some ''0999999999001'']]) ''ruc'' = Some ''1790012345001''"
proof -
  have c: "''ruc'' \<in> set campos" by (simp add: campos_def)
  have e: "\<not> con_valor (dict_get resultado_inicial ''ruc'')"
    by (simp add: resultado_inicial_def campos_def dict_get_def con_valor_def truthy_def)
  have p: "list_all (\<lambda>p. \<not> con_valor (dict_get p ''ruc'')) [[''ruc'' \<mapsto> Some ''null'']]"
    by (simp add: dict_get_def con_valor_def truthy_def in_nulos_def)
  have n: "con_valor (dict_get [''ruc'' \<mapsto> Some ''1790012345001''] ''ruc'')"
    by (simp add: dict_get_def con_valor_def truthy_def in_nulos_def)
  from C3_fusionar_first_wins [OF c, of resultado_inicial "[''ruc'' \<mapsto> Some ''1790012345001'']"
      "[]" "[[''ruc'' \<mapsto> Some ''null'']]" "[[''ruc'' \<mapsto> Some ''0999999999001'']]"] e p n
  show ?thesis by (simp add: dict_get_def)
qed

section \<open>Claim about the tax-ID validation\<close>

lemma match_repetido_digits:
  assumes "list_all is_digit r" "10 \<le> length r" "length r \<le> 13"
  shows "match_repetido d r = (r = replicate (length r) d)"
proof -
  from assms(2) have ne: "r \<noteq> []" by auto
  then have "last r \<in> set r" by simp
  with assms(1) have "is_digit (last r)" by (simp add: list_all_iff)
  then have "last r \<noteq> NL" by (auto simp: is_digit_def)
  moreover have "list_all (\<lambda>c. c = d) r = (r = replicate (length r) d)"
    by (induction r) (auto simp: list_all_iff)
  ultimately show ?thesis using assms(2,3) by (simp add: match_repetido_def)
qed

lemma validar_ruc_accepted:
  assumes "validar_ruc ruc = Some r"
  shows "list_all is_digit r \<and> 10 \<le> length r \<and> length r \<le> 13 \<and>
     r \<noteq> replicate (length r) (CHR ''0'') \<and> r \<noteq> replicate (length r) (CHR ''1'') \<and>
     r \<noteq> replicate (length r) (CHR ''9'')"
proof -
  from assms have r: "r = only_digits ruc" and len: "10 \<le> length r" "length r \<le> 13"
    and m: "\<not> match_repetido (CHR ''0'') r" "\<not> match_repetido (CHR ''1'') r"
      "\<not> match_repetido (CHR ''9'') r"
    by (auto simp: validar_ruc_def Let_def split: if_splits)
  from r have d: "list_all is_digit r" by (simp add: only_digits_def list_all_iff)
  from m show ?thesis
    unfolding match_repetido_digits [OF d len] using d len by simp
qed

text \<open>
  C5. The claim says that no accepted tax ID is a single repeated digit. The code rejects
  only the sequences of zeros, of ones and of nines: ten twos are accepted.
\<close>

theorem C5_ruc_repeated_digit_accepted:
  "validar_ruc (Some ''2222222222'') = Some ''2222222222''"
  by (simp add: validar_ruc_def truthy_def lower_def lower_char_def only_digits_def
      is_digit_def match_repetido_def Let_def)

theorem C5_ruc_zeros_rejected:
  "validar_ruc (Some ''0000000000000'') = None"
  by (simp add: validar_ruc_def truthy_def lower_def lower_char_def only_digits_def
      is_digit_def match_repetido_def Let_def)

section \<open>Properties of the persistence step\<close>

lemma ejecutar_update_dom: "dom (filas (fst (ejecutar_update sets codigo db))) = dom (filas db)"
  by (auto simp: ejecutar_update_def Let_def split: option.splits)

lemma update_postgres_fst:
  "fst (update_postgres l1 l2 gc mj db fd) =
     (let sets = construir_set (columnas db) (datos_limpios l1 l2 fd) (file_name fd) mj
      in if truthy (codigo_proceso fd) \<and> conectar gc 0 max_conn_retries = Inr () \<and>
            filas db (the (codigo_proceso fd)) \<noteq> None \<and> sets \<noteq> []
         then fst (ejecutar_update sets (the (codigo_proceso fd)) db) else db)"
  by (simp add: update_postgres_def Let_def case_prod_beta split: sum.split)

lemma update_postgres_dom:
  "dom (filas (fst (update_postgres l1 l2 gc mj db fd))) = dom (filas db)"
  by (simp add: update_postgres_fst Let_def ejecutar_update_dom)

lemma aplicar_set_other:
  "col \<notin> fst ` set sets \<Longrightarrow> aplicar_set sets row col = row col"
proof -
  have "col \<notin> fst ` set sets \<Longrightarrow>
        foldl (\<lambda>r (c, e). r(c \<mapsto> eval_expr row0 c e)) r sets col = r col" for r row0
    by (induction sets arbitrary: r) auto
  then show "col \<notin> fst ` set sets \<Longrightarrow> aplicar_set sets row col = row col"
    by (simp add: aplicar_set_def)
qed

lemma ejecutar_update_celda:
  "col \<notin> fst ` set sets \<Longrightarrow> celda (fst (ejecutar_update sets codigo db)) k col = celda db k col"
  by (auto simp: ejecutar_update_def celda_def Let_def aplicar_set_other split: option.splits)

lemma set_foldl_add_campo:
  "set (foldl (add_campo cols d) acc cs) =
     set acc \<union> (\<lambda>c. (c, Param (the (dict_get d c)))) `
        {c \<in> set cs. c \<in> set cols \<and> con_texto (dict_get d c)}"
  by (induction cs arbitrary: acc) (auto simp: add_campo_def add_update_def Let_def)

lemma campos_not_fecha:
  "campo \<in> set campos \<Longrightarrow>
     campo \<noteq> ''updated_at'' \<and> campo \<noteq> ''fecha_actualizacion'' \<and>
     campo \<noteq> ''fuente_archivo'' \<and> campo \<noteq> ''metadata''"
  by (auto simp: campos_def)

lemma campos_not_ultimo:
  "campo \<in> set campos \<Longrightarrow>
     \<not> (contiene ''fecha'' (lower campo) \<or> contiene ''updated'' (lower campo)
        \<or> contiene ''actualizacion'' (lower campo))"
  by (auto simp: campos_def lower_def lower_char_def)

lemma set_resto_campo:
  "campo \<in> set campos \<Longrightarrow>
     ((campo, e) \<in> set (set_resto cols fn mj acc)) = ((campo, e) \<in> set acc)"
  by (auto simp: set_resto_def add_update_def Let_def dest: campos_not_fecha)

lemma set_ultimo_recurso_campo:
  assumes "campo \<in> set campos"
  shows "((campo, e) \<in> set (set_ultimo_recurso cols acc)) = ((campo, e) \<in> set acc)"
proof (cases "acc = []")
  case False
  then show ?thesis by (simp add: set_ultimo_recurso_def)
next
  case True
  let ?f = "filter (\<lambda>col. contiene ''fecha'' (lower col) \<or> contiene ''updated'' (lower col)
                                \<or> contiene ''actualizacion'' (lower col)) cols"
  show ?thesis
  proof (cases ?f)
    case Nil
    with True show ?thesis by (simp add: set_ultimo_recurso_def)
  next
    case (Cons col rest)
    then have "col \<in> set ?f" by simp
    then have "contiene ''fecha'' (lower col) \<or> contiene ''updated'' (lower col)
                                \<or> contiene ''actualizacion'' (lower col)" by simp
    with campos_not_ultimo [OF assms] have "campo \<noteq> col" by auto
    with True Cons show ?thesis by (simp add: set_ultimo_recurso_def)
  qed
qed

lemma construir_set_campo:
  assumes "campo \<in> set campos"
  shows "((campo, e) \<in> set (construir_set cols d fn mj)) =
         (campo \<in> set cols \<and> con_texto (dict_get d campo) \<and> e = Param (the (dict_get d campo)))"
proof -
  have "(campo, e) \<notin> set (set_fecha cols)"
    using campos_not_fecha [OF assms] by (auto simp: set_fecha_def)
  with assms show ?thesis
    unfolding construir_set_def
    by (auto simp: set_ultimo_recurso_campo set_resto_campo set_foldl_add_campo)
qed

lemma construir_set_campo_dom:
  assumes "campo \<in> set campos"
  shows "(campo \<in> fst ` set (construir_set cols d fn mj)) =
         (campo \<in> set cols \<and> con_texto (dict_get d campo))"
proof -
  have "(campo \<in> fst ` set (construir_set cols d fn mj)) =
        (\<exists>e. (campo, e) \<in> set (construir_set cols d fn mj))"
    by force
  then show ?thesis by (simp add: construir_set_campo [OF assms])
qed

lemma update_postgres_celda:
  assumes "col \<notin> fst ` set (construir_set (columnas db) (datos_limpios l1 l2 fd) (file_name fd) mj)"
  shows "celda (fst (update_postgres l1 l2 gc mj db fd)) k col = celda db k col"
  using assms by (simp add: update_postgres_fst Let_def ejecutar_update_celda)

lemma con_texto_truthy: "con_texto v \<Longrightarrow> truthy v"
  by (cases v) (auto simp: con_texto_def truthy_def strip_def rstrip_def lstrip_def)

lemma limpiar_razon_bd_other:
  "campo \<noteq> ''razon_social'' \<Longrightarrow> dict_get (limpiar_razon_bd l d) campo = dict_get d campo"
  by (simp add: limpiar_razon_bd_def Let_def dict_get_def)

lemma limpiar_razon_bd_self:
  "dict_get (limpiar_razon_bd l d) ''razon_social'' \<noteq> None \<Longrightarrow>
     truthy (dict_get d ''razon_social'') \<and>
     dict_get (limpiar_razon_bd l d) ''razon_social'' = l (the (dict_get d ''razon_social''))"
  by (simp add: limpiar_razon_bd_def Let_def dict_get_def split: if_splits)

lemma limpiar_representante_bd_other:
  "campo \<noteq> ''representante'' \<Longrightarrow>
     dict_get (limpiar_representante_bd l d) campo = dict_get d campo"
  by (simp add: limpiar_representante_bd_def Let_def dict_get_def)

lemma limpiar_representante_bd_self:
  "dict_get (limpiar_representante_bd l d) ''representante'' \<noteq> None \<Longrightarrow>
     truthy (dict_get d ''representante'') \<and>
     dict_get (limpiar_representante_bd l d) ''representante'' = l (the (dict_get d ''representante''))"
  by (simp add: limpiar_representante_bd_def Let_def dict_get_def split: if_splits)

lemma datos_limpios_other:
  "campo \<noteq> ''razon_social'' \<Longrightarrow> campo \<noteq> ''representante'' \<Longrightarrow>
     dict_get (datos_limpios l1 l2 fd) campo =
     dict_get (datos_contratista fd) campo"
  by (simp add: datos_limpios_def limpiar_representante_bd_other limpiar_razon_bd_other)

lemma datos_limpios_raw:
  assumes "con_texto (dict_get (datos_limpios l1 l2 fd) campo)"
  shows "truthy (dict_get (datos_contratista fd) campo)"
proof -
  let ?d0 = "datos_contratista fd"
  from assms have ne: "dict_get (datos_limpios l1 l2 fd) campo \<noteq> None"
    by (cases "dict_get (datos_limpios l1 l2 fd) campo") (simp_all add: con_texto_def)
  consider "campo = ''representante''" | "campo = ''razon_social''"
    | "campo \<noteq> ''razon_social''" "campo \<noteq> ''representante''"
    by blast
  then show ?thesis
  proof cases
    case 1
    with ne have "truthy (dict_get (limpiar_razon_bd l1 ?d0) ''representante'')"
      using limpiar_representante_bd_self [of l2 "limpiar_razon_bd l1 ?d0"]
      by (simp add: datos_limpios_def)
    with 1 show ?thesis by (simp add: limpiar_razon_bd_other)
  next
    case 2
    with ne have "dict_get (limpiar_razon_bd l1 ?d0) ''razon_social'' \<noteq> None"
      by (simp add: datos_limpios_def limpiar_representante_bd_other)
    with 2 show ?thesis using limpiar_razon_bd_self [of l1 ?d0] by simp
  next
    case 3
    with assms show ?thesis by (simp add: datos_limpios_other con_texto_truthy)
  qed
qed

section \<open>Claims about the persistence step\<close>

text \<open>
  C1. When the process code of the document matches no row of the table,
  \<open>update_postgres\<close> writes nothing, and with the connection established it returns the
  status "skipped". For every input and every outcome the rows of the table keep their
  keys: no row is inserted.
\<close>

theorem C1_update_postgres_never_inserts:
  "(codigo_proceso fd = Some codigo \<and> filas db codigo = None \<longrightarrow>
      fst (update_postgres l1 l2 get_conn mj db fd) = db \<and>
      (codigo \<noteq> [] \<and> conectar get_conn 0 max_conn_retries = Inr () \<longrightarrow>
         snd (update_postgres l1 l2 get_conn mj db fd) =
           Inr \<lparr>datos = fd, update_status = ''skipped'',
                update_reason = Some ''Registro no existe en BD''\<rparr>)) \<and>
   dom (filas (fst (update_postgres l1 l2 get_conn mj db fd))) = dom (filas db)"
proof -
  have "fst (update_postgres l1 l2 get_conn mj db fd) = db"
    if "codigo_proceso fd = Some codigo" "filas db codigo = None"
    using that by (simp add: update_postgres_fst Let_def)
  moreover have "snd (update_postgres l1 l2 get_conn mj db fd) =
           Inr \<lparr>datos = fd, update_status = ''skipped'',
                update_reason = Some ''Registro no existe en BD''\<rparr>"
    if "codigo_proceso fd = Some codigo" "filas db codigo = None" "codigo \<noteq> []"
      "conectar get_conn 0 max_conn_retries = Inr ()"
    using that by (simp add: update_postgres_def Let_def truthy_def)
  ultimately show ?thesis by (simp add: update_postgres_dom)
qed

theorem C1_update_postgres_never_inserts_witness:
  "update_postgres (\<lambda>_. None) (\<lambda>_. None) (\<lambda>_. Conectado) ''{}'' base_ejemplo fd_ausente =
     (base_ejemplo, Inr \<lparr>datos = fd_ausente, update_status = ''skipped'',
                          update_reason = Some ''Registro no existe en BD''\<rparr>)"
proof -
  have 1: "codigo_proceso fd_ausente = Some ''PROC-999''" by (simp add: fd_ausente_def)
  have 2: "filas base_ejemplo ''PROC-999'' = None" by (simp add: base_ejemplo_def)
  have 3: "conectar (\<lambda>_. Conectado) 0 max_conn_retries = Inr ()"
    by (simp add: max_conn_retries_def numeral_3_eq_3)
  from C1_update_postgres_never_inserts [of fd_ausente "''PROC-999''" base_ejemplo
      "\<lambda>_. None" "\<lambda>_. None" "\<lambda>_. Conectado" "''{}''"] 1 2 3
  show ?thesis by (simp add: prod_eq_iff)
qed

section \<open>The cleaners on blank text\<close>

lemma match_ci_Nil: "w \<noteq> [] \<Longrightarrow> \<not> match_ci w []"
  by (cases w) (simp_all add: match_ci_def lower_def)

lemma strip_Nil: "strip [] = []"
  by (simp add: strip_def lstrip_def rstrip_def)

lemma quitar_prefijo_Nil: "ws \<noteq> [] \<Longrightarrow> hd ws \<noteq> [] \<Longrightarrow> quitar_prefijo ws [] = []"
  by (cases ws) (simp_all add: quitar_prefijo_def match_ci_Nil)

lemma foldl_prefijos_Nil:
  "\<forall>p \<in> set ps. p \<noteq> [] \<and> hd p \<noteq> [] \<Longrightarrow>
     foldl (\<lambda>r prefijo. strip (quitar_prefijo prefijo r)) [] ps = []"
  by (induction ps) (simp_all add: quitar_prefijo_Nil strip_Nil)

lemma limpiar_razon_social_blank: "strip r = [] \<Longrightarrow> limpiar_razon_social r = None"
proof -
  assume b: "strip r = []"
  have "\<forall>p \<in> set prefijos_remover. p \<noteq> [] \<and> hd p \<noteq> []"
    by (simp add: prefijos_remover_def)
  then have "foldl (\<lambda>r prefijo. strip (quitar_prefijo prefijo r)) [] prefijos_remover = []"
    by (rule foldl_prefijos_Nil)
  with b show ?thesis
    by (simp add: limpiar_razon_social_def Let_def replace_char_def strip_Nil)
qed

lemma primero_None: "(\<And>x. x \<in> set xs \<Longrightarrow> f x = None) \<Longrightarrow> primero f xs = None"
  by (induction xs) simp_all

lemma quitar_titulo_persona_Nil: "quitar_titulo_persona [] = []"
proof -
  have "match_titulo_persona alt [] = None" if "alt \<in> set titulos_persona" for alt
  proof -
    from that have "fst alt \<noteq> []" by (auto simp: titulos_persona_def)
    then show ?thesis by (simp add: match_titulo_persona_def match_ci_Nil)
  qed
  then have "primero (\<lambda>alt. match_titulo_persona alt []) titulos_persona = None"
    by (rule primero_None)
  then show ?thesis by (simp add: quitar_titulo_persona_def)
qed

lemma limpiar_nombre_persona_blank:
  "strip v = [] \<Longrightarrow> limpiar_nombre_persona capitalize v = None"
  by (simp add: limpiar_nombre_persona_def Let_def quitar_titulo_persona_Nil strip_Nil
      match_dos_palabras_def)

lemma datos_limpios_repo_raw:
  assumes "con_texto (dict_get (datos_limpios limpiar_razon_social
                                   (limpiar_nombre_persona capitalize) fd) campo)"
  shows "con_texto (dict_get (datos_contratista fd) campo)"
proof -
  let ?crudo = "datos_contratista fd"
  let ?medio = "limpiar_razon_bd limpiar_razon_social ?crudo"
  let ?limpio = "datos_limpios limpiar_razon_social (limpiar_nombre_persona capitalize) fd"
  from assms have ne: "dict_get ?limpio campo \<noteq> None"
    by (cases "dict_get ?limpio campo") (simp_all add: con_texto_def)
  have blank: "con_texto v" if "truthy v" "strip (the v) \<noteq> []" for v
    using that by (cases v) (simp_all add: con_texto_def truthy_def)
  consider "campo = ''representante''" | "campo = ''razon_social''"
    | "campo \<noteq> ''razon_social''" "campo \<noteq> ''representante''"
    by blast
  then show ?thesis
  proof cases
    case 1
    with ne have "dict_get (limpiar_representante_bd (limpiar_nombre_persona capitalize) ?medio)
                    ''representante'' \<noteq> None"
      by (simp add: datos_limpios_def)
    then have t: "truthy (dict_get ?medio ''representante'')"
      and l: "limpiar_nombre_persona capitalize (the (dict_get ?medio ''representante'')) \<noteq> None"
      using limpiar_representante_bd_self [of "limpiar_nombre_persona capitalize" ?medio] by auto
    have "strip (the (dict_get ?medio ''representante'')) \<noteq> []"
    proof
      assume "strip (the (dict_get ?medio ''representante'')) = []"
      then have "limpiar_nombre_persona capitalize (the (dict_get ?medio ''representante'')) = None"
        by (rule limpiar_nombre_persona_blank)
      with l show False by simp
    qed
    with t have "con_texto (dict_get ?medio ''representante'')" by (rule blank)
    with 1 show ?thesis by (simp add: limpiar_razon_bd_other)
  next
    case 2
    with ne have n: "dict_get ?medio ''razon_social'' \<noteq> None"
      by (simp add: datos_limpios_def limpiar_representante_bd_other)
    then have t: "truthy (dict_get ?crudo ''razon_social'')"
      and l: "limpiar_razon_social (the (dict_get ?crudo ''razon_social'')) \<noteq> None"
      using limpiar_razon_bd_self [of limpiar_razon_social ?crudo] by auto
    have "strip (the (dict_get ?crudo ''razon_social'')) \<noteq> []"
    proof
      assume "strip (the (dict_get ?crudo ''razon_social'')) = []"
      then have "limpiar_razon_social (the (dict_get ?crudo ''razon_social'')) = None"
        by (rule limpiar_razon_social_blank)
      with l show False by simp
    qed
    with t have "con_texto (dict_get ?crudo ''razon_social'')" by (rule blank)
    with 2 show ?thesis by simp
  next
    case 3
    with assms show ?thesis by (simp add: datos_limpios_other)
  qed
qed

text \<open>
  C2. For each of the six contractor fields, the column is in the \<open>SET\<close> list of the
  statement exactly when it exists in the live schema and the value that
  \<open>update_postgres\<close> holds for the field is neither \<open>None\<close> nor blank; the value received
  for the field is then neither \<open>None\<close> nor empty, and for the four fields that are not
  cleaned it is the value written. A field with no value leaves the stored value of its
  column unchanged, in every row. With the cleaners of the repository, a field whose
  held value is neither \<open>None\<close> nor blank was received neither \<open>None\<close> nor blank.
\<close>

theorem C2_update_only_fields_with_value:
  assumes "campo \<in> set campos"
  shows "((campo, e) \<in> set (construir_set (columnas db) (datos_limpios l1 l2 fd) (file_name fd) mj) \<longrightarrow>
            campo \<in> set (columnas db) \<and> con_texto (dict_get (datos_limpios l1 l2 fd) campo) \<and>
            e = Param (the (dict_get (datos_limpios l1 l2 fd) campo)) \<and>
            truthy (dict_get (datos_contratista fd) campo)) \<and>
         (campo \<in> set (columnas db) \<and> con_texto (dict_get (datos_limpios l1 l2 fd) campo) \<longrightarrow>
            (campo, Param (the (dict_get (datos_limpios l1 l2 fd) campo)))
              \<in> set (construir_set (columnas db) (datos_limpios l1 l2 fd) (file_name fd) mj)) \<and>
         (campo \<noteq> ''razon_social'' \<and> campo \<noteq> ''representante'' \<longrightarrow>
            dict_get (datos_limpios l1 l2 fd) campo = dict_get (datos_contratista fd) campo) \<and>
         (\<not> con_texto (dict_get (datos_limpios l1 l2 fd) campo) \<longrightarrow>
            celda (fst (update_postgres l1 l2 get_conn mj db fd)) k campo = celda db k campo) \<and>
         (\<not> truthy (dict_get (datos_contratista fd) campo) \<longrightarrow>
            celda (fst (update_postgres l1 l2 get_conn mj db fd)) k campo = celda db k campo) \<and>
         (con_texto (dict_get (datos_limpios limpiar_razon_social
                                 (limpiar_nombre_persona capitalize) fd) campo) \<longrightarrow>
            con_texto (dict_get (datos_contratista fd) campo))"
proof -
  let ?limpio = "datos_limpios l1 l2 fd"
  let ?sets = "construir_set (columnas db) ?limpio (file_name fd) mj"
  have a: "celda (fst (update_postgres l1 l2 get_conn mj db fd)) k campo = celda db k campo"
    if "\<not> con_texto (dict_get ?limpio campo)"
  proof (rule update_postgres_celda)
    from that show "campo \<notin> fst ` set ?sets"
      by (simp add: construir_set_campo_dom [OF assms])
  qed
  have b: "\<not> con_texto (dict_get ?limpio campo)" if "\<not> truthy (dict_get (datos_contratista fd) campo)"
    using that datos_limpios_raw [of l1 l2 fd campo] by blast
  have c: "con_texto (dict_get (datos_limpios limpiar_razon_social
                                 (limpiar_nombre_persona capitalize) fd) campo) \<longrightarrow>
            con_texto (dict_get (datos_contratista fd) campo)"
    using datos_limpios_repo_raw [of capitalize fd campo] by blast
  show ?thesis
    using a b c datos_limpios_raw [of l1 l2 fd campo]
    by (auto simp: construir_set_campo [OF assms] datos_limpios_other)
qed

theorem C2_update_only_fields_with_value_witness:
  "(''ruc'', Param ''1790012345001'')
     \<in> set (construir_set (columnas base_ejemplo)
              (datos_limpios limpiar_razon_social (limpiar_nombre_persona capitalize_ascii) fd_presente)
              (file_name fd_presente) ''{}'') \<and>
   celda (fst (update_postgres limpiar_razon_social (limpiar_nombre_persona capitalize_ascii)
                 (\<lambda>_. Conectado) ''{}'' base_ejemplo fd_presente))
     ''PROC-001'' ''telefono'' = Some (SText ''022345678'')"
proof -
  let ?l1 = limpiar_razon_social
  let ?l2 = "limpiar_nombre_persona capitalize_ascii"
  have "dict_get (datos_limpios ?l1 ?l2 fd_presente) ''ruc'' =
        dict_get (datos_contratista fd_presente) ''ruc''"
    by (rule datos_limpios_other) simp_all
  then have r: "dict_get (datos_limpios ?l1 ?l2 fd_presente) ''ruc'' = Some ''1790012345001''"
    by (simp add: datos_contratista_def fd_presente_def dict_get_def)
  have "dict_get (datos_limpios ?l1 ?l2 fd_presente) ''telefono'' =
        dict_get (datos_contratista fd_presente) ''telefono''"
    by (rule datos_limpios_other) simp_all
  then have t: "dict_get (datos_limpios ?l1 ?l2 fd_presente) ''telefono'' = None"
    by (simp add: datos_contratista_def fd_presente_def dict_get_def)
  have c: "con_texto (Some ''1790012345001'')"
    by (simp add: con_texto_def strip_def rstrip_def lstrip_def is_space_def)
  have 1: "''ruc'' \<in> set campos" and 2: "''telefono'' \<in> set campos"
    by (simp_all add: campos_def)
  have 3: "''ruc'' \<in> set (columnas base_ejemplo)" by (simp add: base_ejemplo_def)
  have 4: "celda base_ejemplo ''PROC-001'' ''telefono'' = Some (SText ''022345678'')"
    by (simp add: celda_def base_ejemplo_def)
  from C2_update_only_fields_with_value [OF 1, of "Param ''1790012345001''" base_ejemplo
      ?l1 ?l2 fd_presente "''{}''"] r c 3
  have A: "(''ruc'', Param ''1790012345001'')
     \<in> set (construir_set (columnas base_ejemplo) (datos_limpios ?l1 ?l2 fd_presente)
              (file_name fd_presente) ''{}'')"
    by simp
  from C2_update_only_fields_with_value [OF 2, of _ base_ejemplo
      ?l1 ?l2 fd_presente "''{}''" "\<lambda>_. Conectado" "''PROC-001''"] t 4
  have B: "celda (fst (update_postgres ?l1 ?l2 (\<lambda>_. Conectado) ''{}'' base_ejemplo fd_presente))
     ''PROC-001'' ''telefono'' = Some (SText ''022345678'')"
    by (simp add: con_texto_def)
  from A B show ?thesis by simp
qed

section \<open>Properties of the phone normalisation\<close>

lemma clasificar_Some:
  "clasificar d = Some (t, d') \<Longrightarrow>
     d' = d \<and> ((t = Celular \<and> es_celular d) \<or> (t = Fijo \<and> es_fijo d \<and> \<not> es_celular d))"
  by (auto simp: clasificar_def split: if_splits)

lemma valid_phones_shape:
  assumes "(t, d) \<in> set (valid_phones s)"
  shows "(t = Celular \<and> es_celular d) \<or> (t = Fijo \<and> es_fijo d)"
proof -
  from assms obtain phone where
    "(let p = strip phone in if p = [] then None else clasificar (digitos_telefono p)) = Some (t, d)"
    by (auto simp: valid_phones_def List.map_filter_def)
  then have "\<exists>x. clasificar x = Some (t, d)"
    by (auto simp: Let_def split: if_splits)
  then show ?thesis by (auto dest: clasificar_Some)
qed


lemma normalize_phone_shape:
  assumes "normalize_phone raw = Some p"
  shows "es_celular p \<or> es_fijo p"
proof -
  let ?s = "strip (the raw)"
  let ?vp = "valid_phones ?s"
  from assms have ne: "truthy raw" "?s \<noteq> []"
    by (auto simp: normalize_phone_def Let_def split: if_splits)
  show ?thesis
  proof (cases "filter (\<lambda>(t, d). t = Celular) ?vp")
    case (Cons a rest)
    obtain t d where a: "a = (t, d)" by (cases a)
    from Cons a have "(t, d) \<in> set (filter (\<lambda>(t, d). t = Celular) ?vp)" by simp
    then have "(t, d) \<in> set ?vp" by auto
    moreover from assms ne Cons a have "p = d" by (simp add: normalize_phone_def Let_def)
    ultimately show ?thesis using valid_phones_shape by blast
  next
    case Nil
    show ?thesis
    proof (cases ?vp)
      case (Cons a rest)
      obtain t d where a: "a = (t, d)" by (cases a)
      from Cons a have "(t, d) \<in> set ?vp" by simp
      moreover from assms ne Nil Cons a have "p = d" by (simp add: normalize_phone_def Let_def)
      ultimately show ?thesis using valid_phones_shape by blast
    next
      case vpnil: Nil
      from assms ne Nil vpnil show ?thesis
        by (auto simp: normalize_phone_def Let_def split: if_splits)
    qed
  qed
qed



text \<open>A string of digits goes through every step of the normalisation unchanged.\<close>

lemma digit_not_space: "is_digit c \<Longrightarrow> \<not> is_space c"
  by (auto simp: is_digit_def is_space_def)

lemma digit_not_sep: "is_digit c \<Longrightarrow> \<not> is_sep c"
  by (auto simp: is_digit_def is_sep_def)

lemma digit_lower: "is_digit c \<Longrightarrow> lower_char c = c"
  by (auto simp: is_digit_def lower_char_def)

lemma strip_digits:
  assumes "list_all is_digit p"
  shows "strip p = p"
proof -
  have a: "dropWhile is_space q = q" if "list_all is_digit q" for q
    using that by (cases q) (auto simp: digit_not_space)
  have "list_all is_digit (rev p)" using assms by (simp add: list_all_iff)
  then show ?thesis using assms by (simp add: strip_def lstrip_def rstrip_def a)
qed

lemma re_split_aux_digits:
  "list_all is_digit p \<Longrightarrow> re_split_aux acc p = [acc @ p]"
proof (induction p arbitrary: acc)
  case Nil
  show ?case by simp
next
  case (Cons c cs)
  then have "match_sep (c # cs) = None"
    by (simp add: match_sep_def digit_not_space digit_not_sep)
  with Cons show ?case by simp
qed

lemma match_ext_digit: "is_digit c \<Longrightarrow> match_ext (c # cs) = None"
  by (auto simp: match_ext_def match_ci_def lower_def digit_lower is_digit_def lower_char_def)

lemma quitar_ext_digits: "list_all is_digit p \<Longrightarrow> quitar_ext p = p"
  by (induction p) (simp_all add: match_ext_digit)


lemma prefijo_593_digits: "list_all is_digit p \<Longrightarrow> prefijo_593 p = p"
  by (cases p) (auto simp: prefijo_593_def is_digit_def)

lemma digitos_telefono_digits: "list_all is_digit p \<Longrightarrow> digitos_telefono p = p"
  by (simp add: digitos_telefono_def quitar_ext_digits strip_digits prefijo_593_digits
      list_all_iff)

lemma normalize_phone_fixed:
  assumes "es_celular p \<or> es_fijo p"
  shows "normalize_phone (Some p) = Some p"
proof -
  from assms have d: "list_all is_digit p" and ne: "p \<noteq> []"
    by (auto simp: es_celular_def es_fijo_def)
  have "\<exists>t. clasificar p = Some (t, p)"
    using assms by (cases "es_celular p") (simp_all add: clasificar_def)
  then obtain t where c: "clasificar p = Some (t, p)" ..
  have "valid_phones p = [(t, p)]"
    using d ne c
    by (simp add: valid_phones_def re_split_def re_split_aux_digits List.map_filter_def
        strip_digits digitos_telefono_digits)
  with d ne show ?thesis
    by (cases t) (simp_all add: normalize_phone_def truthy_def strip_digits Let_def)
qed

section \<open>Claims about the phone normalisation\<close>



text \<open>
  C10. \<open>normalize_phone\<close> is idempotent on what it accepts: a phone it returns is
  returned unchanged when given back to it.
\<close>

theorem C10_normalize_phone_idempotent:
  "normalize_phone raw = Some p \<Longrightarrow> normalize_phone (Some p) = Some p"
  by (rule normalize_phone_fixed) (rule normalize_phone_shape)

theorem C10_normalize_phone_idempotent_witness:
  "normalize_phone (Some ''+593 991234567 ext. 12'') = Some ''0991234567'' \<and>
   normalize_phone (Some ''0991234567'') = Some ''0991234567''"
proof -
  have a: "normalize_phone (Some ''+593 991234567 ext. 12'') = Some ''0991234567''"
    by code_simp
  from C10_normalize_phone_idempotent [OF a] a show ?thesis by simp
qed

section \<open>Properties of the block isolator\<close>

text \<open>A block is well formed when its span is not empty, starts inside the text and
  its third component is the text of the span.\<close>

lemma slice_nonempty: "i < f \<Longrightarrow> i < length t \<Longrightarrow> slice t i f \<noteq> []"
  by (simp add: slice_def)

lemma solapar_ok:
  assumes "inicio < fin" "inicio < length t"
    and "\<forall>(i, f, b) \<in> set todos. i < f \<and> i < length t \<and> b = slice t i f"
    and "set resto \<subseteq> set todos"
  shows "(\<forall>(i, f, b) \<in> set (solapar t inicio fin todos resto). i < f \<and> i < length t \<and> b = slice t i f)
         \<and> solapar t inicio fin todos resto \<noteq> []"
  using assms(4)
proof (induction resto)
  case Nil
  with assms(1-3) show ?case by auto
next
  case (Cons x resto)
  obtain ie fe b where x: "x = (ie, fe, b)" by (cases x)
  from Cons.prems x have mem: "(ie, fe, b) \<in> set todos" by simp
  show ?case
  proof (cases "\<not> (fin < ie \<or> inicio > fe)")
    case False
    with Cons x show ?thesis by simp
  next
    case True
    show ?thesis
    proof (cases "inicio < ie \<or> fin > fe")
      case False
      with True x mem assms(3) show ?thesis by auto
    next
      case ext: True
      have sub: "set (remove1 (ie, fe, slice t ie fe) todos) \<subseteq> set todos"
        by (rule set_remove1_subset)
      have "min inicio ie < max fin fe" "min inicio ie < length t"
        using assms(1,2) by auto
      with True ext x sub assms(3) show ?thesis
        by (auto simp: Let_def)
    qed
  qed
qed

lemma agregar_match_ok:
  assumes "fst m < snd m" "snd m \<le> length t"
    and "\<forall>(i, f, b) \<in> set todos. i < f \<and> i < length t \<and> b = slice t i f"
  shows "\<forall>(i, f, b) \<in> set (agregar_match t antes despues todos m).
           i < f \<and> i < length t \<and> b = slice t i f"
proof -
  have "fst m - antes < min (length t) (snd m + despues)" "fst m - antes < length t"
    using assms(1,2) by auto
  from solapar_ok [OF this assms(3), of todos] show ?thesis
    by (simp add: agregar_match_def Let_def)
qed

lemma foldl_agregar_match_ok:
  assumes "\<forall>m \<in> set ms. fst m < snd m \<and> snd m \<le> length t"
    and "\<forall>(i, f, b) \<in> set todos. i < f \<and> i < length t \<and> b = slice t i f"
  shows "\<forall>(i, f, b) \<in> set (foldl (agregar_match t antes despues) todos ms).
           i < f \<and> i < length t \<and> b = slice t i f"
  using assms
proof (induction ms arbitrary: todos)
  case Nil
  then show ?case by simp
next
  case (Cons m ms)
  from Cons.prems have "\<forall>(i, f, b) \<in> set (agregar_match t antes despues todos m).
           i < f \<and> i < length t \<and> b = slice t i f"
    by (intro agregar_match_ok) auto
  with Cons.IH Cons.prems(1) show ?case by simp
qed

lemma foldl_patrones_ok:
  assumes "\<forall>(i, antes, despues) \<in> set ps. \<forall>m \<in> set (finditer i l). fst m < snd m \<and> snd m \<le> length t"
    and "\<forall>(i, f, b) \<in> set todos. i < f \<and> i < length t \<and> b = slice t i f"
  shows "\<forall>(i, f, b) \<in> set (foldl (\<lambda>todos (i, antes, despues).
              foldl (agregar_match t antes despues) todos (finditer i l)) todos ps).
           i < f \<and> i < length t \<and> b = slice t i f"
  using assms
proof (induction ps arbitrary: todos)
  case Nil
  then show ?case by simp
next
  case (Cons p ps)
  obtain i antes despues where p: "p = (i, antes, despues)" by (cases p)
  from Cons.prems p have "\<forall>(i, f, b) \<in> set (foldl (agregar_match t antes despues) todos (finditer i l)).
           i < f \<and> i < length t \<and> b = slice t i f"
    by (intro foldl_agregar_match_ok) auto
  with Cons.IH [of "foldl (agregar_match t antes despues) todos (finditer i l)"] Cons.prems(1) p
  show ?case by simp
qed

lemma buscar_bloques_ok:
  assumes "spans_ok finditer (str_lower t)" "length (str_lower t) \<le> length t"
  shows "\<forall>(i, f, b) \<in> set (buscar_bloques str_lower finditer t).
           i < f \<and> i < length t \<and> b = slice t i f"
  unfolding buscar_bloques_def Let_def
proof (rule foldl_patrones_ok)
  show "\<forall>(i, antes, despues) \<in> set (enumerate 0 patrones_clave).
          \<forall>m \<in> set (finditer i (str_lower t)). fst m < snd m \<and> snd m \<le> length t"
    using assms by (fastforce simp: spans_ok_def in_set_enumerate_eq)
qed simp

lemma foldl_patrones_none:
  assumes "\<forall>(i, antes, despues) \<in> set ps. finditer i l = []"
  shows "foldl (\<lambda>todos (i, antes, despues).
              foldl (agregar_match t antes despues) todos (finditer i l)) todos ps = todos"
  using assms by (induction ps arbitrary: todos) auto

lemma buscar_bloques_none:
  assumes "\<forall>i < length patrones_clave. finditer i (str_lower t) = []"
  shows "buscar_bloques str_lower finditer t = []"
  unfolding buscar_bloques_def Let_def
  by (rule foldl_patrones_none) (use assms in \<open>auto simp: in_set_enumerate_eq\<close>)

lemma fusionar_bloques_ok:
  assumes "\<forall>(i, f, b) \<in> set acc. i < f \<and> i < length t \<and> b = slice t i f"
    and "\<forall>(i, f, b) \<in> set xs. i < f \<and> i < length t \<and> b = slice t i f"
  shows "(\<forall>(i, f, b) \<in> set (fusionar_bloques t acc xs). i < f \<and> i < length t \<and> b = slice t i f)
         \<and> (acc \<noteq> [] \<or> xs \<noteq> [] \<longrightarrow> fusionar_bloques t acc xs \<noteq> [])"
  using assms
proof (induction xs arbitrary: acc)
  case Nil
  then show ?case by simp
next
  case (Cons x xs)
  obtain i f b where x: "x = (i, f, b)" by (cases x)
  from Cons.prems(2) x have xok: "i < f" "i < length t" "b = slice t i f" by auto
  from Cons.prems(2) have xs: "\<forall>(i, f, b) \<in> set xs. i < f \<and> i < length t \<and> b = slice t i f"
    by simp
  show ?case
  proof (cases "acc = []")
    case True
    have "\<forall>(i, f, b) \<in> set (acc @ [(i, f, b)]). i < f \<and> i < length t \<and> b = slice t i f"
      using True xok by simp
    from Cons.IH [OF this xs] True x show ?thesis by simp
  next
    case False
    obtain ui uf ub where l: "last acc = (ui, uf, ub)" by (cases "last acc")
    from False l have "(ui, uf, ub) \<in> set acc" using last_in_set [of acc] by simp
    with Cons.prems(1) have lok: "ui < uf" "ui < length t" by auto
    show ?thesis
    proof (cases "int i - int uf < 500")
      case True
      have sub: "set (butlast acc) \<subseteq> set acc" by (auto dest: in_set_butlastD)
      have "\<forall>(i, f, b) \<in> set (butlast acc @ [(ui, max f uf, slice t ui (max f uf))]).
              i < f \<and> i < length t \<and> b = slice t i f"
        using Cons.prems(1) sub lok by auto
      from Cons.IH [OF this xs] False l True x show ?thesis by (simp add: Let_def)
    next
      case far: False
      have "\<forall>(i, f, b) \<in> set (acc @ [(i, f, b)]). i < f \<and> i < length t \<and> b = slice t i f"
        using Cons.prems(1) xok by auto
      from Cons.IH [OF this xs] False l far x show ?thesis by simp
    qed
  qed
qed

lemma join_nonempty: "xs \<noteq> [] \<Longrightarrow> hd xs \<noteq> [] \<Longrightarrow> join sep xs \<noteq> []"
  by (induction sep xs rule: join.induct) auto

lemma pre_filtro_length: "length (pre_filtro str_lower finditer texto) \<le> 12000"
  by (auto simp: pre_filtro_def Let_def)

lemma pre_filtro_fallback:
  assumes "\<forall>i < length patrones_clave. finditer i (str_lower (normalizar texto)) = []"
  shows "pre_filtro str_lower finditer texto = take 8000 (normalizar texto)"
proof (cases "texto = []")
  case True
  then show ?thesis by (simp add: pre_filtro_def normalizar_def replace_char_def)
next
  case False
  with buscar_bloques_none [of finditer str_lower "normalizar texto", OF assms] show ?thesis
    by (simp add: pre_filtro_def Let_def)
qed

lemma pre_filtro_nonempty:
  assumes "spans_ok finditer (str_lower (normalizar texto))"
    and "length (str_lower (normalizar texto)) \<le> length (normalizar texto)"
    and "normalizar texto \<noteq> []"
  shows "pre_filtro str_lower finditer texto \<noteq> []"
proof -
  let ?t = "normalizar texto"
  let ?bs = "buscar_bloques str_lower finditer ?t"
  from assms(3) have tx: "texto \<noteq> []" by (auto simp: normalizar_def replace_char_def)
  show ?thesis
  proof (cases "?bs = []")
    case True
    with tx assms(3) show ?thesis by (simp add: pre_filtro_def Let_def)
  next
    case False
    let ?so = "sort_key fst ?bs"
    let ?fu = "fusionar_bloques ?t [] ?so"
    have so: "\<forall>(i, f, b) \<in> set ?so. i < f \<and> i < length ?t \<and> b = slice ?t i f"
      using buscar_bloques_ok [of finditer str_lower ?t] assms(1,2) by simp
    have sone: "?so \<noteq> []" using False by (metis length_sort length_0_conv)
    from fusionar_bloques_ok [of "[]" ?t ?so] so sone
    have fu: "\<forall>(i, f, b) \<in> set ?fu. i < f \<and> i < length ?t \<and> b = slice ?t i f" and fune: "?fu \<noteq> []"
      by auto
    obtain i f b where h: "hd ?fu = (i, f, b)" by (cases "hd ?fu")
    with fune have "(i, f, b) \<in> set ?fu" using hd_in_set [of ?fu] by simp
    with fu have "i < f" "i < length ?t" "b = slice ?t i f" by auto
    then have "b \<noteq> []" by (simp add: slice_nonempty)
    with h fune have "hd (map (\<lambda>(i, f, b). b) ?fu) \<noteq> []" by (simp add: hd_map)
    with fune have "join separador (map (\<lambda>(i, f, b). b) ?fu) \<noteq> []"
      by (intro join_nonempty) simp_all
    with tx False show ?thesis by (auto simp: pre_filtro_def Let_def)
  qed
qed

lemma pre_filtro_empty:
  assumes ok: "spans_ok finditer (str_lower (normalizar texto))"
    and le: "length (str_lower (normalizar texto)) \<le> length (normalizar texto)"
    and e: "normalizar texto = []"
  shows "pre_filtro str_lower finditer texto = []"
proof -
  have "finditer i (str_lower (normalizar texto)) = []" if i: "i < length patrones_clave" for i
  proof (cases "finditer i (str_lower (normalizar texto))")
    case Nil
    then show ?thesis .
  next
    case (Cons m ms)
    with ok i have "fst m < snd m \<and> snd m \<le> length (str_lower (normalizar texto))"
      by (simp add: spans_ok_def)
    with le e have False by auto
    then show ?thesis ..
  qed
  then have "\<forall>i < length patrones_clave. finditer i (str_lower (normalizar texto)) = []"
    by simp
  from pre_filtro_fallback [of finditer str_lower texto, OF this] e show ?thesis by simp
qed

text \<open>
  One match only, of pattern 2 (\<open>\bcontratista\b\<close>), found in a lowered text that is
  longer than the normalised text, so far to the right that its window starts beyond
  the end of the normalised text: the only block is empty, and so is the output.
\<close>

lemma buscar_bloques_uno:
  assumes "\<forall>i < length patrones_clave. finditer i (str_lower t) = (if i = 2 then [m] else [])"
  shows "buscar_bloques str_lower finditer t = agregar_match t 500 1500 [] m"
proof -
  have en: "enumerate 0 patrones_clave =
      [(0, 500, 1500), (1, 500, 1500), (2, 500, 1500)] @ enumerate 3 (drop 3 patrones_clave)"
    by (simp add: patrones_clave_def enumerate_append_eq numeral_eq_Suc)
  have rest: "\<forall>(i, antes, despues) \<in> set (enumerate 3 (drop 3 patrones_clave)).
      finditer i (str_lower t) = []"
    using assms by (auto simp: in_set_enumerate_eq)
  show ?thesis
    unfolding buscar_bloques_def Let_def en foldl_append
    using assms foldl_patrones_none [where ps = "enumerate 3 (drop 3 patrones_clave)"
        and finditer = finditer and l = "str_lower t" and t = t, OF rest]
    by (simp add: patrones_clave_def)
qed

lemma pre_filtro_longer_lower:
  assumes "\<forall>i < length patrones_clave.
             finditer i (str_lower (normalizar texto)) = (if i = 2 then [m] else [])"
    and "length (normalizar texto) + 500 \<le> fst m" "texto \<noteq> []"
  shows "pre_filtro str_lower finditer texto = []"
proof -
  have b: "buscar_bloques str_lower finditer (normalizar texto) =
      [(fst m - 500, min (length (normalizar texto)) (snd m + 1500),
        slice (normalizar texto) (fst m - 500) (min (length (normalizar texto)) (snd m + 1500)))]"
    using buscar_bloques_uno [of finditer str_lower "normalizar texto" m] assms(1)
    by (simp add: agregar_match_def Let_def)
  have s: "slice (normalizar texto) (fst m - 500) (min (length (normalizar texto)) (snd m + 1500)) = []"
    using assms(2) by (simp add: slice_def)
  show ?thesis
    using assms(3) by (simp add: pre_filtro_def Let_def b s)
qed

section \<open>Claim about the block isolator\<close>

text \<open>
  C4, as the specification states it, fails: the output is empty for the empty text and
  for a text of carriage returns only, whose normalised text is empty and holds no match.
\<close>

theorem C4_empty_output_counterexample:
  "pre_filtro lower (\<lambda>i s. []) [CR] = [] \<and> pre_filtro lower (\<lambda>i s. []) [] = []"
  by (simp add: pre_filtro_def buscar_bloques_none normalizar_def replace_char_def)

text \<open>
  C4, amended. For every document text, every \<open>str.lower\<close> and every \<open>re.finditer\<close>, the
  output of \<open>pre_filtro\<close> has at most 12000 characters, and when no trigger pattern matches
  in the lower-cased normalised text it is exactly the first 8000 characters of the
  normalised text. When lower-casing does not lengthen the normalised text, the matches
  being non-empty spans of the lower-cased text, the output is empty exactly when the
  normalised text is empty. Nothing is stated about emptiness for a text that
  lower-casing lengthens.
\<close>

theorem C4_pre_filtro_amended:
  "length (pre_filtro str_lower finditer texto) \<le> 12000 \<and>
   ((\<forall>i < length patrones_clave. finditer i (str_lower (normalizar texto)) = []) \<longrightarrow>
      pre_filtro str_lower finditer texto = take 8000 (normalizar texto)) \<and>
   (spans_ok finditer (str_lower (normalizar texto)) \<and>
    length (str_lower (normalizar texto)) \<le> length (normalizar texto) \<longrightarrow>
      (pre_filtro str_lower finditer texto = []) = (normalizar texto = []))"
  using pre_filtro_length [of str_lower finditer texto]
    pre_filtro_fallback [of finditer str_lower texto]
    pre_filtro_nonempty [of finditer str_lower texto]
    pre_filtro_empty [of finditer str_lower texto]
  by blast

theorem C4_pre_filtro_amended_witness:
  "pre_filtro lower finditer_ejemplo ''CONTRATISTA: ACME S.A.'' \<noteq> [] \<and>
   pre_filtro lower (\<lambda>i s. []) ''sin datos'' = ''sin datos''"
proof -
  have n: "normalizar ''CONTRATISTA: ACME S.A.'' = ''CONTRATISTA: ACME S.A.''"
    by code_simp
  have ok: "spans_ok finditer_ejemplo (lower (normalizar ''CONTRATISTA: ACME S.A.''))"
    unfolding n by (auto simp: spans_ok_def finditer_ejemplo_def lower_def split: if_splits)
  have le: "length (lower (normalizar ''CONTRATISTA: ACME S.A.'')) \<le>
      length (normalizar ''CONTRATISTA: ACME S.A.'')"
    by (simp add: lower_def)
  have m: "normalizar ''sin datos'' = ''sin datos''"
    by code_simp
  have no: "\<forall>i < length patrones_clave. (\<lambda>i s. []) i (lower (normalizar ''sin datos'')) = []"
    by simp
  from C4_pre_filtro_amended [of lower finditer_ejemplo "''CONTRATISTA: ACME S.A.''"] ok le n
  have A: "pre_filtro lower finditer_ejemplo ''CONTRATISTA: ACME S.A.'' \<noteq> []" by auto
  from C4_pre_filtro_amended [of lower "\<lambda>i s. []" "''sin datos''"] no m
  have B: "pre_filtro lower (\<lambda>i s. []) ''sin datos'' = ''sin datos''" by simp
  from A B show ?thesis by simp
qed

section \<open>Properties of the representative rule\<close>

lemma split_ws_tokens:
  "p \<in> set (split_ws s) \<Longrightarrow> p \<noteq> [] \<and> (\<forall>c \<in> set p. \<not> is_space c)"
proof (induction s rule: split_ws.induct)
  case (1 s)
  let ?t = "dropWhile is_space s"
  show ?case
  proof (cases "?t = []")
    case True
    with 1(2) show ?thesis by (simp add: split_ws.simps [of s])
  next
    case False
    then have hd: "\<not> is_space (hd ?t)" using hd_dropWhile [of is_space s] by simp
    have "split_ws s = takeWhile (\<lambda>c. \<not> is_space c) ?t #
        split_ws (dropWhile (\<lambda>c. \<not> is_space c) ?t)"
      using False by (subst split_ws.simps) (simp add: Let_def)
    with 1(2) have "p = takeWhile (\<lambda>c. \<not> is_space c) ?t \<or>
        p \<in> set (split_ws (dropWhile (\<lambda>c. \<not> is_space c) ?t))"
      by simp
    then show ?thesis
    proof
      assume p: "p = takeWhile (\<lambda>c. \<not> is_space c) ?t"
      from False hd have "takeWhile (\<lambda>c. \<not> is_space c) ?t \<noteq> []"
        by (cases ?t) auto
      with p show ?thesis by (auto dest: set_takeWhileD)
    next
      assume "p \<in> set (split_ws (dropWhile (\<lambda>c. \<not> is_space c) ?t))"
      with 1(1) [OF refl False] show ?thesis by simp
    qed
  qed
qed

lemma mayuscula_es_upper: "mayuscula_es c \<Longrightarrow> is_upper c"
  by (auto simp: mayuscula_es_def is_upper_def Let_def)

lemma palabra_valida_titulo:
  assumes "p \<noteq> []" "\<forall>c \<in> set p. \<not> is_space c"
  shows "palabra_valida p = palabra_titulo p"
proof -
  from assms have "\<forall>c \<in> set (tl p). \<not> is_space c" by (cases p) auto
  then have "list_all (\<lambda>c. minuscula_es c \<or> is_space c \<or> c = CHR ''-'') (tl p) =
             list_all (\<lambda>c. minuscula_es c \<or> c = CHR ''-'') (tl p)"
    by (auto simp: list_all_iff)
  with assms(1) show ?thesis
    by (auto simp: palabra_valida_def palabra_titulo_def match_palabra_def mayuscula_es_upper)
qed

lemma palabras_validas_titulo:
  "list_all palabra_valida (split_ws r) = list_all palabra_titulo (split_ws r)"
proof -
  have "palabra_valida p = palabra_titulo p" if "p \<in> set (split_ws r)" for p
    using split_ws_tokens [OF that] by (simp add: palabra_valida_titulo)
  then show ?thesis by (auto simp: list_all_iff)
qed

lemma sin_titulo_Nil: "sin_titulo [] = []"
  by (simp add: sin_titulo_def quitar_titulo_def titulos_def match_titulo_def match_ci_def
      lower_def strip_def lstrip_def rstrip_def)

lemma validar_representante_regla:
  "validar_representante (Some s) = representante_regla s"
proof (cases "s = []")
  case True
  then show ?thesis
    by (simp add: validar_representante_def representante_regla_def truthy_def sin_titulo_Nil)
next
  case False
  then show ?thesis
    unfolding validar_representante_def representante_regla_def sin_titulo_def Let_def
    by (auto simp: truthy_def palabras_validas_titulo not_less)
qed

section \<open>Keywords as words and keywords anywhere\<close>

lemma split_ws_sub: "p \<in> set (split_ws s) \<Longrightarrow> \<exists>a b. s = a @ p @ b"
proof (induction s rule: split_ws.induct)
  case (1 s)
  let ?t = "dropWhile is_space s"
  let ?w = "takeWhile (\<lambda>c. \<not> is_space c) ?t"
  let ?r = "dropWhile (\<lambda>c. \<not> is_space c) ?t"
  have s: "s = takeWhile is_space s @ ?w @ ?r" by simp
  show ?case
  proof (cases "?t = []")
    case True
    with 1(2) show ?thesis by (simp add: split_ws.simps [of s])
  next
    case False
    have "split_ws s = ?w # split_ws ?r"
      using False by (subst split_ws.simps) (simp add: Let_def)
    with 1(2) have "p = ?w \<or> p \<in> set (split_ws ?r)" by simp
    then show ?thesis
    proof
      assume "p = ?w"
      with s show ?thesis by blast
    next
      assume "p \<in> set (split_ws ?r)"
      with 1(1) [OF refl False] obtain a b where "?r = a @ p @ b" by blast
      then have "s = (takeWhile is_space s @ ?w @ a) @ p @ b" using s by simp
      then show ?thesis by blast
    qed
  qed
qed

lemma es_prefijo_append: "es_prefijo n (n @ b)"
  by (induction n) simp_all

lemma es_prefijo_Nil: "es_prefijo n [] = (n = [])"
  by (cases n) simp_all

lemma contiene_append: "contiene n (a @ n @ b)"
proof (induction a)
  case Nil
  show ?case
  proof (cases "n @ b")
    case Nil
    then show ?thesis by simp
  next
    case (Cons c cs)
    have "contiene n (c # cs)" using es_prefijo_append [of n b] Cons by simp
    with Cons show ?thesis by simp
  qed
next
  case (Cons x a)
  then show ?case by simp
qed

lemma re_search_search_ci: "re_search (match_ci k) r = search_ci k r"
  by (induction r) (simp_all add: match_ci_def search_ci_def lower_def es_prefijo_Nil)

lemma palabra_search_ci:
  assumes "p \<in> set (split_ws r)" "lower p = lower k"
  shows "search_ci k r"
proof -
  from split_ws_sub [OF assms(1)] obtain a b where "r = a @ p @ b" by blast
  then have "lower r = lower a @ lower k @ lower b" using assms(2) by (simp add: lower_def)
  then show ?thesis by (simp add: search_ci_def contiene_append)
qed

lemma re_search_mono: "(\<And>x. m x \<Longrightarrow> m' x) \<Longrightarrow> re_search m s \<Longrightarrow> re_search m' s"
  by (induction s) auto

lemma re_search_disj: "re_search (\<lambda>x. a x \<or> b x) s = (re_search a s \<or> re_search b s)"
  by (induction s) auto

lemma re_search_compania:
  "re_search match_compania r =
     (search_ci (''COMPA'' @ [CHR 0xD1, CHR 0xCD] @ ''A'') r \<or> search_ci (''COMPA'' @ [CHR 0xD1] @ ''IA'') r)"
proof -
  have "match_compania = (\<lambda>x. match_ci (''COMPA'' @ [CHR 0xD1, CHR 0xCD] @ ''A'') x \<or>
                  match_ci (''COMPA'' @ [CHR 0xD1] @ ''IA'') x)"
    by (rule ext) (simp add: match_compania_def)
  then have "re_search match_compania r =
      (re_search (match_ci (''COMPA'' @ [CHR 0xD1, CHR 0xCD] @ ''A'')) r \<or>
       re_search (match_ci (''COMPA'' @ [CHR 0xD1] @ ''IA'')) r)"
    using re_search_disj [of "match_ci (''COMPA'' @ [CHR 0xD1, CHR 0xCD] @ ''A'')"
        "match_ci (''COMPA'' @ [CHR 0xD1] @ ''IA'')" r]
    by (simp del: re_search.simps)
  then show ?thesis by (simp only: re_search_search_ci)
qed

lemma re_search_cia_ltda: "re_search match_cia_ltda r \<Longrightarrow> search_ci ''CIA'' r"
proof -
  assume "re_search match_cia_ltda r"
  then have "re_search (match_ci ''CIA'') r"
    by (rule re_search_mono [rotated]) (simp add: match_cia_ltda_def)
  then show ?thesis by (simp only: re_search_search_ci)
qed

lemma keywords_empresa_palabras:
  "list_ex (\<lambda>m. re_search m r) keywords_empresa = list_ex (\<lambda>k. search_ci k r) palabras_empresa"
  unfolding keywords_empresa_def palabras_empresa_def
  using re_search_cia_ltda [of r]
  by (auto simp del: re_search.simps simp add: re_search_search_ci re_search_compania)

lemma palabras_cargo_eq: "palabras_cargo = cargos_prohibidos"
  by (simp add: palabras_cargo_def cargos_prohibidos_def)

lemma sin_palabra_clave:
  assumes "\<not> list_ex (\<lambda>k. search_ci k r) claves"
  shows "\<not> list_ex (es_palabra_clave claves) (split_ws r)"
proof
  assume "list_ex (es_palabra_clave claves) (split_ws r)"
  then obtain p k where "p \<in> set (split_ws r)" "k \<in> set claves" "lower p = lower k"
    by (auto simp: list_ex_iff es_palabra_clave_def)
  with palabra_search_ci [of p r k] assms show False by (auto simp: list_ex_iff)
qed

lemma regla_titulo: "representante_regla s \<Longrightarrow> representante_titulo s"
  unfolding representante_regla_def representante_titulo_def Let_def
  using sin_palabra_clave [of "sin_titulo s" palabras_empresa]
    sin_palabra_clave [of "sin_titulo s" palabras_cargo]
  by (simp add: keywords_empresa_palabras palabras_cargo_eq)

lemma titulo_regla:
  "representante_titulo s \<Longrightarrow> sin_letras_clave (sin_titulo s) \<Longrightarrow> representante_regla s"
  unfolding representante_regla_def representante_titulo_def sin_letras_clave_def Let_def
  by (simp add: keywords_empresa_palabras palabras_cargo_eq)

section \<open>The title prefix\<close>

lemma lower_titulos:
  "map lower titulos =
     [''ing'', ''arq'', ''abg'', ''dr'', ''dra'', ''sr'', ''sra'', ''lic'', ''msc'', ''mg'', ''mba'', ''eco'']"
  by (simp add: titulos_def lower_def lower_char_def char_of_def bit_Suc_0_iff)

lemma space_lower: "is_space c \<Longrightarrow> lower_char c = c"
  by (auto simp: is_space_def lower_char_def Let_def)

lemma lower_a_no_space: "lower_char c = CHR ''a'' \<Longrightarrow> \<not> is_space c \<and> c \<noteq> CHR ''.''"
proof (intro conjI notI)
  assume a: "lower_char c = CHR ''a''" and "is_space c"
  from space_lower [OF this(2)] a have "c = CHR ''a''" by simp
  with \<open>is_space c\<close> show False by (simp add: is_space_def)
next
  assume a: "lower_char c = CHR ''a''" and "c = CHR ''.''"
  then show False by (simp add: lower_char_def)
qed

lemma match_titulo_propio:
  assumes "lower t = lower t0"
  shows "match_titulo t0 (t @ ''. '' @ s) = Some (dropWhile is_space s)"
    and "match_titulo t0 (t @ '' '' @ s) = Some (dropWhile is_space s)"
proof -
  from assms have l: "length t0 = length t" by (metis length_map lower_def)
  have sp: "is_space (CHR '' '')" by (simp add: is_space_def)
  have m: "match_ci t0 (t @ x) = True" for x
    using es_prefijo_append [of "lower t" "lower x"] assms by (simp add: match_ci_def lower_def)
  show "match_titulo t0 (t @ ''. '' @ s) = Some (dropWhile is_space s)"
    unfolding match_titulo_def m by (simp add: l espacios1_def sp)
  show "match_titulo t0 (t @ '' '' @ s) = Some (dropWhile is_space s)"
    unfolding match_titulo_def m by (simp add: l espacios1_def sp)
qed

lemma titulo_prefijo_todos:
  "list_all (\<lambda>l'. list_all (\<lambda>l. list_all (\<lambda>c. es_prefijo l' (l @ c # x) \<longrightarrow>
        l' = l \<or> (l' = ''dr'' \<and> l = ''dra'') \<or> (l' = ''sr'' \<and> l = ''sra'')) ''. '')
      [''ing'', ''arq'', ''abg'', ''dr'', ''dra'', ''sr'', ''sra'', ''lic'', ''msc'', ''mg'', ''mba'', ''eco''])
    [''ing'', ''arq'', ''abg'', ''dr'', ''dra'', ''sr'', ''sra'', ''lic'', ''msc'', ''mg'', ''mba'', ''eco'']"
  by simp

lemma titulo_prefijo:
  assumes "l' \<in> set [''ing'', ''arq'', ''abg'', ''dr'', ''dra'', ''sr'', ''sra'', ''lic'', ''msc'', ''mg'', ''mba'', ''eco'']"
    and "l \<in> set [''ing'', ''arq'', ''abg'', ''dr'', ''dra'', ''sr'', ''sra'', ''lic'', ''msc'', ''mg'', ''mba'', ''eco'']"
    and "es_prefijo l' (l @ c # x)" "c = CHR ''.'' \<or> c = CHR '' ''"
  shows "l' = l \<or> (l' = ''dr'' \<and> l = ''dra'') \<or> (l' = ''sr'' \<and> l = ''sra'')"
proof -
  from assms(4) have c: "c \<in> set ''. ''" by auto
  from titulo_prefijo_todos [of x, unfolded list_all_iff] assms(1,2) c assms(3)
  show ?thesis by blast
qed

lemma match_titulo_a:
  assumes "length t' = 2" "lower t = lower t' @ ''a''"
  shows "match_titulo t' (t @ c # y) = None"
proof (cases "match_ci t' (t @ c # y)")
  case False
  then show ?thesis by (simp add: match_titulo_def)
next
  case True
  from assms(2) have "length (lower t) = length (lower t' @ ''a'')" by simp
  with assms(1) have "length t = 3" by (simp add: lower_def)
  then obtain p q d where t: "t = [p, q, d]"
    by (auto simp: length_Suc_conv numeral_3_eq_3)
  with assms have "lower_char d = CHR ''a''" by (auto simp: lower_def length_Suc_conv numeral_2_eq_2)
  from lower_a_no_space [OF this] have d: "\<not> is_space d" "d \<noteq> CHR ''.''" by simp_all
  have r: "drop (length t') (t @ c # y) = d # c # y" using t assms(1) by simp
  show ?thesis
    unfolding match_titulo_def r using d by (auto simp: Let_def espacios1_def)
qed

lemma match_titulo_otro:
  assumes "lower t' \<in> set [''ing'', ''arq'', ''abg'', ''dr'', ''dra'', ''sr'', ''sra'', ''lic'', ''msc'', ''mg'', ''mba'', ''eco'']"
    and "lower t \<in> set [''ing'', ''arq'', ''abg'', ''dr'', ''dra'', ''sr'', ''sra'', ''lic'', ''msc'', ''mg'', ''mba'', ''eco'']"
    and "lower t' \<noteq> lower t" "c = CHR ''.'' \<or> c = CHR '' ''"
  shows "match_titulo t' (t @ c # y) = None"
proof (cases "match_ci t' (t @ c # y)")
  case False
  then show ?thesis by (simp add: match_titulo_def)
next
  case True
  from assms(4) have "lower_char c = c" by (auto simp: lower_char_def)
  with True have "es_prefijo (lower t') (lower t @ c # lower y)"
    by (simp add: match_ci_def lower_def)
  from titulo_prefijo [OF assms(1,2) this assms(4)] assms(3)
  have "(lower t' = ''dr'' \<and> lower t = ''dra'') \<or> (lower t' = ''sr'' \<and> lower t = ''sra'')"
    by simp
  then have "length (lower t') = 2 \<and> lower t = lower t' @ ''a''" by auto
  then have "length t' = 2 \<and> lower t = lower t' @ ''a''" by (simp add: lower_def)
  then show ?thesis using match_titulo_a [of t' t c y] by simp
qed

lemma primer_titulo_unico:
  assumes "\<forall>t' \<in> set ts. match_titulo t' x = None \<or> match_titulo t' x = Some y"
    and "\<exists>t0 \<in> set ts. match_titulo t0 x = Some y"
  shows "primer_titulo ts x = Some y"
  using assms by (induction ts) (auto split: option.splits)

lemma primer_titulo_None:
  "\<forall>t \<in> set ts. match_titulo t x = None \<Longrightarrow> primer_titulo ts x = None"
  by (induction ts) auto

lemma quitar_titulo_con:
  assumes "lower t \<in> set [''ing'', ''arq'', ''abg'', ''dr'', ''dra'', ''sr'', ''sra'', ''lic'', ''msc'', ''mg'', ''mba'', ''eco'']"
  shows "quitar_titulo (t @ ''. '' @ s) = dropWhile is_space s"
    and "quitar_titulo (t @ '' '' @ s) = dropWhile is_space s"
proof -
  let ?L = "[''ing'', ''arq'', ''abg'', ''dr'', ''dra'', ''sr'', ''sra'', ''lic'', ''msc'', ''mg'', ''mba'', ''eco'']"
  have "set (map lower titulos) = set ?L" by (simp only: lower_titulos)
  then have L: "lower ` set titulos = set ?L" by (simp only: set_map)
  have in_L: "lower t' \<in> set ?L" if "t' \<in> set titulos" for t'
    using that L by blast
  from assms L obtain t0 where t0: "t0 \<in> set titulos" "lower t = lower t0"
    by blast
  have a: "match_titulo t' (t @ ''. '' @ s) = None \<or>
           match_titulo t' (t @ ''. '' @ s) = Some (dropWhile is_space s)"
    if "t' \<in> set titulos" for t'
  proof (cases "lower t' = lower t")
    case True
    with match_titulo_propio(1) [of t t' s] show ?thesis by simp
  next
    case False
    from match_titulo_otro [OF in_L [OF that] assms False, of "CHR ''.''" "'' '' @ s"]
    show ?thesis by simp
  qed
  have b: "match_titulo t' (t @ '' '' @ s) = None \<or>
           match_titulo t' (t @ '' '' @ s) = Some (dropWhile is_space s)"
    if "t' \<in> set titulos" for t'
  proof (cases "lower t' = lower t")
    case True
    with match_titulo_propio(2) [of t t' s] show ?thesis by simp
  next
    case False
    from match_titulo_otro [OF in_L [OF that] assms False, of "CHR '' ''" s]
    show ?thesis by simp
  qed
  have "\<exists>t0 \<in> set titulos. match_titulo t0 (t @ ''. '' @ s) = Some (dropWhile is_space s)"
    using t0(1) match_titulo_propio(1) [OF t0(2), of s] by blast
  moreover have "\<forall>t' \<in> set titulos. match_titulo t' (t @ ''. '' @ s) = None \<or>
           match_titulo t' (t @ ''. '' @ s) = Some (dropWhile is_space s)"
    using a by blast
  ultimately have "primer_titulo titulos (t @ ''. '' @ s) = Some (dropWhile is_space s)"
    by (intro primer_titulo_unico)
  then show "quitar_titulo (t @ ''. '' @ s) = dropWhile is_space s"
    by (simp only: quitar_titulo_def option.case)
  have "\<exists>t0 \<in> set titulos. match_titulo t0 (t @ '' '' @ s) = Some (dropWhile is_space s)"
    using t0(1) match_titulo_propio(2) [OF t0(2), of s] by blast
  moreover have "\<forall>t' \<in> set titulos. match_titulo t' (t @ '' '' @ s) = None \<or>
           match_titulo t' (t @ '' '' @ s) = Some (dropWhile is_space s)"
    using b by blast
  ultimately have "primer_titulo titulos (t @ '' '' @ s) = Some (dropWhile is_space s)"
    by (intro primer_titulo_unico)
  then show "quitar_titulo (t @ '' '' @ s) = dropWhile is_space s"
    by (simp only: quitar_titulo_def option.case)
qed

lemma strip_ends: "s \<noteq> [] \<Longrightarrow> \<not> is_space (hd s) \<Longrightarrow> \<not> is_space (last s) \<Longrightarrow> strip s = s"
proof -
  assume s: "s \<noteq> []" "\<not> is_space (hd s)" "\<not> is_space (last s)"
  then have a: "dropWhile is_space s = s" by (cases s) auto
  from s have "rev s \<noteq> []" "\<not> is_space (hd (rev s))" by (simp_all add: hd_rev)
  then have "dropWhile is_space (rev s) = rev s" by (cases "rev s") auto
  with a show ?thesis by (simp add: strip_def lstrip_def rstrip_def)
qed

lemma strip_shape: "strip s = [] \<or> (\<not> is_space (hd (strip s)) \<and> \<not> is_space (last (strip s)))"
proof (cases "strip s = []")
  case True
  then show ?thesis by simp
next
  case False
  let ?y = "dropWhile is_space s"
  let ?d = "dropWhile is_space (rev ?y)"
  have x: "strip s = rev ?d" by (simp add: strip_def lstrip_def rstrip_def)
  with False have d: "?d \<noteq> []" by simp
  then have "\<not> is_space (hd ?d)" using hd_dropWhile [of is_space "rev ?y"] by simp
  with d x have l: "\<not> is_space (last (strip s))" by (simp add: last_rev)
  have "rev ?y = takeWhile is_space (rev ?y) @ ?d" by simp
  then have "?y = rev ?d @ rev (takeWhile is_space (rev ?y))"
    by (metis rev_append rev_rev_ident)
  with x have y: "?y = strip s @ rev (takeWhile is_space (rev ?y))" by simp
  have "?y \<noteq> []"
  proof
    assume e: "?y = []"
    from d show False unfolding e by simp
  qed
  then have "\<not> is_space (hd ?y)" using hd_dropWhile [of is_space s] by simp
  moreover from y False have "hd ?y = hd (strip s)" by (metis hd_append2)
  ultimately show ?thesis using l by simp
qed

lemma strip_strip: "strip (strip s) = strip s"
proof (cases "strip s = []")
  case True
  have "strip [] = []" by (simp add: strip_def lstrip_def rstrip_def)
  with True show ?thesis by simp
next
  case False
  with strip_shape [of s] show ?thesis by (intro strip_ends) simp_all
qed

lemma titulo_no_space:
  assumes "lower t \<in> set [''ing'', ''arq'', ''abg'', ''dr'', ''dra'', ''sr'', ''sra'', ''lic'', ''msc'', ''mg'', ''mba'', ''eco'']"
  shows "t \<noteq> [] \<and> \<not> is_space (hd t)"
proof (cases t)
  case Nil
  with assms show ?thesis by (simp add: lower_def)
next
  case (Cons a u)
  have "\<not> is_space a"
  proof
    assume sp: "is_space a"
    from space_lower [OF sp] assms Cons have "a \<in> set ''iadslme''" by (auto simp: lower_def)
    with sp show False by (auto simp: is_space_def)
  qed
  with Cons show ?thesis by simp
qed

lemma sin_titulo_con:
  assumes "lower t \<in> set [''ing'', ''arq'', ''abg'', ''dr'', ''dra'', ''sr'', ''sra'', ''lic'', ''msc'', ''mg'', ''mba'', ''eco'']"
    and "s \<noteq> []" "\<not> is_space (hd s)" "\<not> is_space (last s)"
  shows "sin_titulo (t @ ''. '' @ s) = s" and "sin_titulo (t @ '' '' @ s) = s"
proof -
  from titulo_no_space [OF assms(1)] have t: "t \<noteq> []" "\<not> is_space (hd t)" by simp_all
  have d: "dropWhile is_space s = s" using assms(2,3) by (cases s) auto
  have s: "strip s = s" using assms(2-4) by (rule strip_ends)
  have "strip (t @ ''. '' @ s) = t @ ''. '' @ s"
    using t assms(2,4) by (intro strip_ends) simp_all
  then show "sin_titulo (t @ ''. '' @ s) = s"
    by (simp only: sin_titulo_def quitar_titulo_con(1) [OF assms(1)] d s)
  have "strip (t @ '' '' @ s) = t @ '' '' @ s"
    using t assms(2,4) by (intro strip_ends) simp_all
  then show "sin_titulo (t @ '' '' @ s) = s"
    by (simp only: sin_titulo_def quitar_titulo_con(2) [OF assms(1)] d s)
qed

lemma sin_titulo_sin:
  assumes "\<not> list_ex (\<lambda>l. es_prefijo l (lower (strip s)))
      [''ing'', ''arq'', ''abg'', ''dr'', ''dra'', ''sr'', ''sra'', ''lic'', ''msc'', ''mg'', ''mba'', ''eco'']"
  shows "sin_titulo s = strip s"
proof -
  have "match_titulo t (strip s) = None" if "t \<in> set titulos" for t
  proof -
    from that have "lower t \<in> set (map lower titulos)" by simp
    then have "lower t \<in> set [''ing'', ''arq'', ''abg'', ''dr'', ''dra'', ''sr'', ''sra'', ''lic'',
        ''msc'', ''mg'', ''mba'', ''eco'']"
      by (simp only: lower_titulos)
    with assms have "\<not> es_prefijo (lower t) (lower (strip s))"
      unfolding list_ex_iff by blast
    then show ?thesis by (simp add: match_titulo_def match_ci_def)
  qed
  then have "primer_titulo titulos (strip s) = None" by (intro primer_titulo_None) simp
  then show ?thesis by (simp add: sin_titulo_def quitar_titulo_def strip_strip)
qed

text \<open>The names JUAN PEREZ, Juan Mora and Juan Garcia, step by step.\<close>

lemma sin_titulo_juan: "sin_titulo ''JUAN PEREZ'' = ''JUAN PEREZ''"
proof -
  have s: "strip ''JUAN PEREZ'' = ''JUAN PEREZ''"
    by (simp add: strip_def lstrip_def rstrip_def is_space_def)
  show ?thesis
    by (subst sin_titulo_sin)
      (simp_all add: s lower_def lower_char_def char_of_def bit_Suc_0_iff)
qed

lemma split_ws_juan: "split_ws ''JUAN PEREZ'' = [''JUAN'', ''PEREZ'']"
  by (simp add: split_ws.simps is_space_def)

lemma claves_juan:
  "\<not> list_ex (es_palabra_clave palabras_empresa) [''JUAN'', ''PEREZ''] \<and>
   \<not> list_ex (es_palabra_clave palabras_cargo) [''JUAN'', ''PEREZ'']"
  by (simp add: es_palabra_clave_def palabras_empresa_def palabras_cargo_def lower_def
      lower_char_def char_of_def bit_Suc_0_iff)

lemma palabras_juan:
  "palabra_spec ''JUAN'' \<and> palabra_spec ''PEREZ'' \<and> \<not> palabra_titulo ''JUAN''"
  by (simp add: palabra_spec_def palabra_titulo_def is_upper_def is_letter_def minuscula_es_def
      mayuscula_es_def)

lemma sin_titulo_mora: "sin_titulo ''Juan Mora'' = ''Juan Mora''"
proof -
  have s: "strip ''Juan Mora'' = ''Juan Mora''"
    by (simp add: strip_def lstrip_def rstrip_def is_space_def)
  show ?thesis
    by (subst sin_titulo_sin)
      (simp_all add: s lower_def lower_char_def char_of_def bit_Suc_0_iff)
qed

lemma split_ws_mora: "split_ws ''Juan Mora'' = [''Juan'', ''Mora'']"
  by (simp add: split_ws.simps is_space_def)

lemma claves_mora:
  "\<not> list_ex (es_palabra_clave palabras_empresa) [''Juan'', ''Mora''] \<and>
   \<not> list_ex (es_palabra_clave palabras_cargo) [''Juan'', ''Mora'']"
  by (simp add: es_palabra_clave_def palabras_empresa_def palabras_cargo_def lower_def
      lower_char_def char_of_def bit_Suc_0_iff)

lemma lower_mora: "lower ''Juan Mora'' = ''juan mora''"
  by (simp add: lower_def lower_char_def char_of_def bit_Suc_0_iff)

lemma letras_mora: "sin_letras_clave ''Juan Mora''"
  by (simp add: sin_letras_clave_def palabras_empresa_def palabras_cargo_def search_ci_def
      lower_mora)
    (simp add: lower_def lower_char_def char_of_def bit_Suc_0_iff)

lemma palabras_mora: "palabra_titulo ''Juan'' \<and> palabra_titulo ''Mora''"
  by (simp add: palabra_titulo_def minuscula_es_def mayuscula_es_def)

lemma representante_titulo_mora: "representante_titulo ''Juan Mora''"
  using claves_mora palabras_mora
  by (simp add: representante_titulo_def sin_titulo_mora split_ws_mora is_digit_def)

lemma sin_titulo_garcia: "sin_titulo ''Juan Garcia'' = ''Juan Garcia''"
proof -
  have s: "strip ''Juan Garcia'' = ''Juan Garcia''"
    by (simp add: strip_def lstrip_def rstrip_def is_space_def)
  show ?thesis
    by (subst sin_titulo_sin)
      (simp_all add: s lower_def lower_char_def char_of_def bit_Suc_0_iff)
qed

lemma split_ws_garcia: "split_ws ''Juan Garcia'' = [''Juan'', ''Garcia'']"
  by (simp add: split_ws.simps is_space_def)

lemma claves_garcia:
  "\<not> list_ex (es_palabra_clave palabras_empresa) [''Juan'', ''Garcia''] \<and>
   \<not> list_ex (es_palabra_clave palabras_cargo) [''Juan'', ''Garcia'']"
  by (simp add: es_palabra_clave_def palabras_empresa_def palabras_cargo_def lower_def
      lower_char_def char_of_def bit_Suc_0_iff)

lemma palabras_garcia: "palabra_titulo ''Juan'' \<and> palabra_titulo ''Garcia''"
  by (simp add: palabra_titulo_def minuscula_es_def mayuscula_es_def)

text \<open>
  The search of the code finds the letters of the keyword \<open>CIA\<close> inside the surname
  Garcia: the name is a name by the rule of the words, and the code rejects it.
\<close>

lemma validar_representante_garcia:
  "representante_titulo ''Juan Garcia'' \<and> \<not> validar_representante (Some ''Juan Garcia'')"
proof -
  have a: "representante_titulo ''Juan Garcia''"
    using claves_garcia palabras_garcia
    by (simp add: representante_titulo_def sin_titulo_garcia split_ws_garcia is_digit_def)
  have "search_ci ''CIA'' ''Juan Garcia''"
    by (simp add: search_ci_def lower_def lower_char_def char_of_def bit_Suc_0_iff)
  then have "list_ex (\<lambda>k. search_ci k ''Juan Garcia'') palabras_empresa"
    by (simp add: palabras_empresa_def)
  then have "\<not> representante_regla ''Juan Garcia''"
    by (simp add: representante_regla_def sin_titulo_garcia keywords_empresa_palabras)
  with a show ?thesis by (simp add: validar_representante_regla)
qed

section \<open>Claim about the representative rule\<close>

text \<open>
  C7, as the specification states it, fails: a name in capitals has two words, none of
  them a keyword, each starting with a capital letter and made of letters only, yet
  \<open>validar_representante\<close> rejects it, since the word pattern allows only small letters
  after the first.
\<close>

theorem C7_capitals_counterexample:
  "representante_spec ''JUAN PEREZ'' \<and> \<not> validar_representante (Some ''JUAN PEREZ'')"
proof -
  have "representante_spec ''JUAN PEREZ''"
    using claves_juan palabras_juan
    by (simp add: representante_spec_def sin_titulo_juan split_ws_juan is_digit_def)
  moreover have "\<not> representante_regla ''JUAN PEREZ''"
    using palabras_juan by (simp add: representante_regla_def sin_titulo_juan split_ws_juan)
  ultimately show ?thesis by (simp add: validar_representante_regla)
qed

text \<open>
  C7, amended. \<open>validar_representante\<close> rejects the missing value. Every candidate it
  accepts has, after the title is stripped, two to four words, no digit, no word that is
  a company keyword (LTDA, S.A., CONSORCIO, CIA, EP, \<open>COMPA\xd1\xcdA\<close>, \<open>COMPA\xd1IA\<close>, gasolinera,
  avenida, calle) or one of the ten office titles, in any case, six to 120 characters,
  and every word is one capital letter (A to Z or an accented capital of Spanish)
  followed only by small letters (a to z or the accented small letters of Spanish) and
  hyphens. Every such candidate is accepted when the letters of no keyword and of no
  office title occur anywhere in it; nothing is stated about a candidate that holds
  them inside a longer word. Stripping the title removes, from a text without spaces at
  its ends, one of the twelve titles in any case, with or without its dot, and the
  spaces after it; a text that does not start with a title keeps all but the spaces at
  its ends.
\<close>

theorem C7_validar_representante_amended:
  "validar_representante None = False \<and>
   (validar_representante (Some s) \<longrightarrow> representante_titulo s) \<and>
   (representante_titulo s \<and> sin_letras_clave (sin_titulo s) \<longrightarrow> validar_representante (Some s)) \<and>
   (lower t \<in> set [''ing'', ''arq'', ''abg'', ''dr'', ''dra'', ''sr'', ''sra'', ''lic'', ''msc'', ''mg'',
                     ''mba'', ''eco''] \<and>
    s \<noteq> [] \<and> \<not> is_space (hd s) \<and> \<not> is_space (last s) \<longrightarrow>
      sin_titulo (t @ ''. '' @ s) = s \<and> sin_titulo (t @ '' '' @ s) = s) \<and>
   (\<not> list_ex (\<lambda>l. es_prefijo l (lower (strip s)))
         [''ing'', ''arq'', ''abg'', ''dr'', ''dra'', ''sr'', ''sra'', ''lic'', ''msc'', ''mg'',
          ''mba'', ''eco''] \<longrightarrow>
      sin_titulo s = strip s)"
proof -
  have a: "validar_representante None = False"
    by (simp add: validar_representante_def truthy_def)
  have b: "validar_representante (Some s) \<longrightarrow> representante_titulo s"
    using regla_titulo [of s] by (simp add: validar_representante_regla)
  have c: "representante_titulo s \<and> sin_letras_clave (sin_titulo s) \<longrightarrow>
      validar_representante (Some s)"
    using titulo_regla [of s] by (simp add: validar_representante_regla)
  from a b c sin_titulo_con [of t s] sin_titulo_sin [of s] show ?thesis by blast
qed

theorem C7_validar_representante_amended_witness:
  "validar_representante (Some ''Juan Mora'') \<and> sin_titulo ''DR. Juan Mora'' = ''Juan Mora''"
proof -
  have t: "lower ''DR'' \<in> set [''ing'', ''arq'', ''abg'', ''dr'', ''dra'', ''sr'', ''sra'', ''lic'',
      ''msc'', ''mg'', ''mba'', ''eco'']"
    by (simp add: lower_def lower_char_def char_of_def bit_Suc_0_iff)
  have s: "''Juan Mora'' \<noteq> [] \<and> \<not> is_space (hd ''Juan Mora'') \<and> \<not> is_space (last ''Juan Mora'')"
    by (simp add: is_space_def)
  have l: "sin_letras_clave (sin_titulo ''Juan Mora'')"
    using letras_mora by (simp only: sin_titulo_mora)
  from C7_validar_representante_amended [of "''Juan Mora''" "''DR''"] representante_titulo_mora l t s
  show ?thesis by simp
qed

end
